theory Spec2Isabelle
  imports Main
begin

section \<open>The data store of \<^verbatim>\<open>database_manager.py\<close>\<close>

text \<open>
  \<^verbatim>\<open>DatabaseManager\<close> keeps four SQLite tables and reaches them through one fresh
  connection per call. The embedding passes the database file around as a value of type
  \<open>store\<close>; every method takes the store and returns its outcome together with the
  store it leaves behind. What Python and SQLite do implicitly is written out:
  \<^item> an exception is a value of type \<open>error\<close>, an outcome is \<open>error + 'a\<close>;
  \<^item> \<^verbatim>\<open>CURRENT_TIMESTAMP\<close> is the argument \<open>now\<close> of the call that reads the clock,
    and the token drawn by \<^verbatim>\<open>uuid.uuid4()\<close> is the argument \<open>certificate_code\<close>;
  \<^item> Python integers are \<open>int\<close>; a value bound to a statement has to fit SQLite's signed
    64-bit INTEGER, otherwise \<^verbatim>\<open>execute\<close> raises \<^verbatim>\<open>OverflowError\<close>;
  \<^item> strings are \<open>string\<close>, a character standing for a code point below 256;
  \<^item> a write needs the file's write lock, which at most one connection holds.
\<close>

subsection \<open>Exceptions\<close>

datatype error = IntegrityError | OperationalError | OverflowError | JSONDecodeError

type_synonym 'a result = "error + 'a"

subsection \<open>The \<^verbatim>\<open>json\<close> codec on lists of strings\<close>

text \<open>
  \<^verbatim>\<open>json.dumps\<close> with its defaults (\<^verbatim>\<open>ensure_ascii\<close>, items separated by a comma and
  a space): quotation mark, backslash and the five short escapes, printable ASCII as it
  is, every other character as \<^verbatim>\<open>\uXXXX\<close> in lower-case hexadecimal.
\<close>

definition hexdigit :: "nat \<Rightarrow> char" where
  "hexdigit d = (if d < 10 then char_of (48 + d) else char_of (87 + d))"

definition escape_char :: "char \<Rightarrow> string" where
  "escape_char c =
     (if c = CHR 0x22 then [CHR 0x5C, CHR 0x22]
      else if c = CHR 0x5C then [CHR 0x5C, CHR 0x5C]
      else if c = CHR 0x0A then [CHR 0x5C, CHR ''n'']
      else if c = CHR 0x0D then [CHR 0x5C, CHR ''r'']
      else if c = CHR 0x09 then [CHR 0x5C, CHR ''t'']
      else if c = CHR 0x08 then [CHR 0x5C, CHR ''b'']
      else if c = CHR 0x0C then [CHR 0x5C, CHR ''f'']
      else if 32 \<le> (of_char c :: nat) \<and> (of_char c :: nat) \<le> 126 then [c]
      else [CHR 0x5C, CHR ''u'', CHR ''0'', CHR ''0'',
            hexdigit ((of_char c :: nat) div 16), hexdigit ((of_char c :: nat) mod 16)])"

definition encode_basestring_ascii :: "string \<Rightarrow> string" where
  "encode_basestring_ascii s = [CHR 0x22] @ concat (map escape_char s) @ [CHR 0x22]"

fun join_items :: "string list \<Rightarrow> string" where
  "join_items [] = []"
| "join_items [x] = x"
| "join_items (x # y # ys) = x @ '', '' @ join_items (y # ys)"

definition json_dumps :: "string list \<Rightarrow> string" where
  "json_dumps xs = ''['' @ join_items (map encode_basestring_ascii xs) @ '']''"

text \<open>
  \<^verbatim>\<open>json.loads\<close>, restricted to the values the store reads: an array of strings.
  The scanner follows \<^verbatim>\<open>json.decoder\<close> (\<^verbatim>\<open>py_scanstring\<close> in strict mode,
  \<^verbatim>\<open>JSONArray\<close>, the whitespace skipped around tokens, the check for trailing text).
  The result type has no value for other JSON documents, nor for a \<^verbatim>\<open>\uXXXX\<close>
  escape of 256 or more: for those, as for malformed text, the model answers
  \<open>JSONDecodeError\<close>.
\<close>

definition hexval :: "char \<Rightarrow> nat option" where
  "hexval c =
     (let n = (of_char c :: nat) in
      if 48 \<le> n \<and> n \<le> 57 then Some (n - 48)
      else if 97 \<le> n \<and> n \<le> 102 then Some (n - 87)
      else if 65 \<le> n \<and> n \<le> 70 then Some (n - 55)
      else None)"

definition decode_uXXXX :: "char \<Rightarrow> char \<Rightarrow> char \<Rightarrow> char \<Rightarrow> nat option" where
  "decode_uXXXX a b c d =
     (case (hexval a, hexval b, hexval c, hexval d) of
        (Some x, Some y, Some z, Some w) \<Rightarrow> Some (((x * 16 + y) * 16 + z) * 16 + w)
      | _ \<Rightarrow> None)"

definition backslash :: "char \<Rightarrow> char option" where
  "backslash e =
     (if e = CHR 0x22 then Some (CHR 0x22)
      else if e = CHR 0x5C then Some (CHR 0x5C)
      else if e = CHR ''/'' then Some (CHR ''/'')
      else if e = CHR ''b'' then Some (CHR 0x08)
      else if e = CHR ''f'' then Some (CHR 0x0C)
      else if e = CHR ''n'' then Some (CHR 0x0A)
      else if e = CHR ''r'' then Some (CHR 0x0D)
      else if e = CHR ''t'' then Some (CHR 0x09)
      else None)"

definition prepend :: "'a \<Rightarrow> ('a list \<times> 'b) result \<Rightarrow> ('a list \<times> 'b) result" where
  "prepend x r = (case r of Inl e \<Rightarrow> Inl e | Inr (xs, rest) \<Rightarrow> Inr (x # xs, rest))"

text \<open>\<open>scanstring s\<close> reads a string literal whose opening quote has been consumed and
  returns its value with the text after the closing quote.\<close>

fun scanstring :: "string \<Rightarrow> (string \<times> string) result" where
  "scanstring [] = Inl JSONDecodeError"
| "scanstring (c # cs) =
     (if c = CHR 0x22 then Inr ([], cs)
      else if c = CHR 0x5C then
        (case cs of
           [] \<Rightarrow> Inl JSONDecodeError
         | e # r \<Rightarrow>
             if e = CHR ''u'' then
               (case r of
                  h1 # h2 # h3 # h4 # r' \<Rightarrow>
                    (case decode_uXXXX h1 h2 h3 h4 of
                       None \<Rightarrow> Inl JSONDecodeError
                     | Some uni \<Rightarrow>
                         if uni < 256 then prepend (char_of uni) (scanstring r')
                         else Inl JSONDecodeError)
                | _ \<Rightarrow> Inl JSONDecodeError)
             else
               (case backslash e of
                  None \<Rightarrow> Inl JSONDecodeError
                | Some ch \<Rightarrow> prepend ch (scanstring r)))
      else if (of_char c :: nat) < 32 then Inl JSONDecodeError
      else prepend c (scanstring cs))"

definition is_ws :: "char \<Rightarrow> bool" where
  "is_ws c \<longleftrightarrow> c = CHR '' '' \<or> c = CHR 0x09 \<or> c = CHR 0x0A \<or> c = CHR 0x0D"

definition skip_ws :: "string \<Rightarrow> string" where
  "skip_ws s = dropWhile is_ws s"

lemma scanstring_shorter: "scanstring s = Inr (v, r) \<Longrightarrow> length r < length s"
proof (induction "length s" arbitrary: s v r rule: less_induct)
  case less
  have IH: "\<And>t v' r'. length t < length s \<Longrightarrow> scanstring t = Inr (v', r') \<Longrightarrow> length r' < length t"
    using less.hyps by blast
  show ?case
    using less.prems
    by (cases s) (auto simp: prepend_def split: if_splits list.splits option.splits sum.splits
          dest!: IH[rotated])
qed

lemma skip_ws_le: "length (skip_ws s) \<le> length s"
  by (simp add: skip_ws_def length_dropWhile_le)

text \<open>\<open>JSONArray s\<close> reads the items of a non-empty array, \<open>s\<close> starting at the first item,
  up to and including the closing bracket.\<close>

function JSONArray :: "string \<Rightarrow> (string list \<times> string) result" where
  "JSONArray s =
     (case s of
        [] \<Rightarrow> Inl JSONDecodeError
      | c # r \<Rightarrow>
          if c \<noteq> CHR 0x22 then Inl JSONDecodeError
          else
            (case scanstring r of
               Inl e \<Rightarrow> Inl e
             | Inr (v, r1) \<Rightarrow>
                 (case skip_ws r1 of
                    [] \<Rightarrow> Inl JSONDecodeError
                  | d # r2 \<Rightarrow>
                      if d = CHR '']'' then Inr ([v], r2)
                      else if d = CHR '','' then prepend v (JSONArray (skip_ws r2))
                      else Inl JSONDecodeError)))"
  by pat_completeness auto
termination
proof (relation "measure length", goal_cases)
  case 1
  show ?case by simp
next
  case (2 s c r x v r1 d r2)
  have "length r1 < length r" using 2 scanstring_shorter by metis
  moreover have "length (d # r2) \<le> length r1" using 2 skip_ws_le by metis
  moreover have "length (skip_ws r2) \<le> length r2" by (rule skip_ws_le)
  ultimately show ?case using 2 by simp
qed

declare JSONArray.simps [simp del]

definition json_loads :: "string \<Rightarrow> string list result" where
  "json_loads s =
     (case skip_ws s of
        [] \<Rightarrow> Inl JSONDecodeError
      | c # r \<Rightarrow>
          if c \<noteq> CHR ''['' then Inl JSONDecodeError
          else
            (case (case skip_ws r of
                     [] \<Rightarrow> Inl JSONDecodeError
                   | d # r1 \<Rightarrow> if d = CHR '']'' then Inr ([], r1) else JSONArray (d # r1)) of
               Inl e \<Rightarrow> Inl e
             | Inr (vs, rest) \<Rightarrow> if skip_ws rest = [] then Inr vs else Inl JSONDecodeError))"

subsection \<open>Tables\<close>

text \<open>
  One record per table of \<^verbatim>\<open>initialize_database\<close>, a field per column (the six
  nullable profile columns of \<^verbatim>\<open>users\<close> grouped; \<^verbatim>\<open>class\<close> and \<^verbatim>\<open>section\<close>
  renamed). A nullable column is an \<open>option\<close>; a timestamp is a number of seconds.
\<close>

type_synonym sql_time = nat

record profile_cols =
  full_name :: "string option"
  parent_name :: "string option"
  dob :: "string option"
  class_col :: "string option"
  section_col :: "string option"
  school :: "string option"

record user_row =
  u_id :: int
  u_username :: string
  u_password_hash :: string
  u_profile :: profile_cols
  u_is_admin :: int
  u_created_at :: sql_time
  u_last_login :: "sql_time option"

record progress_row =
  p_id :: int
  p_user_id :: int
  p_points :: int
  p_completed_tutorials :: string
  p_completed_challenges :: string
  p_emoji_collection :: string
  p_last_updated :: sql_time

record event_row =
  e_id :: int
  e_user_id :: int
  e_event_type :: string
  e_event_details :: "string option"
  e_timestamp :: sql_time

record certificate_row =
  c_id :: int
  c_user_id :: int
  c_certificate_type :: string
  c_issue_date :: sql_time
  c_certificate_code :: string
  c_completed_date :: "sql_time option"

text \<open>
  The database file. \<open>has_users\<close> \<dots> \<open>has_certificates\<close> say which tables exist and
  \<open>has_is_admin\<close> whether \<^verbatim>\<open>users\<close> has its \<^verbatim>\<open>is_admin\<close> column (a file written by
  an older version has not; \<open>u_is_admin\<close> means nothing then). The rows of a table are
  listed in the order a scan without \<^verbatim>\<open>ORDER BY\<close> meets them. \<open>seq_\<close>\<dots> are the
  entries of \<^verbatim>\<open>sqlite_sequence\<close> behind \<^verbatim>\<open>AUTOINCREMENT\<close>. \<open>locked\<close> holds while
  some other connection has an uncommitted write: a second writer then gives up with
  \<^verbatim>\<open>OperationalError: database is locked\<close>.
\<close>

record store =
  has_users :: bool
  has_is_admin :: bool
  has_user_progress :: bool
  has_user_events :: bool
  has_certificates :: bool
  users :: "user_row list"
  user_progress :: "progress_row list"
  user_events :: "event_row list"
  certificates :: "certificate_row list"
  seq_users :: int
  seq_user_progress :: int
  seq_user_events :: int
  seq_certificates :: int
  locked :: bool

definition empty_file :: store where
  "empty_file =
     \<lparr>has_users = False, has_is_admin = False, has_user_progress = False,
      has_user_events = False, has_certificates = False,
      users = [], user_progress = [], user_events = [], certificates = [],
      seq_users = 0, seq_user_progress = 0, seq_user_events = 0, seq_certificates = 0,
      locked = False\<rparr>"

subsection \<open>What SQLite and the \<^verbatim>\<open>sqlite3\<close> module do\<close>

text \<open>An integer parameter is bound as a signed 64-bit value or not at all.\<close>

definition sqlite_int :: "int \<Rightarrow> bool" where
  "sqlite_int n \<longleftrightarrow> - (2 ^ 63) \<le> n \<and> n < 2 ^ 63"

text \<open>\<^verbatim>\<open>INTEGER PRIMARY KEY AUTOINCREMENT\<close>: one more than the largest rowid the table
  ever held; none is left after \<open>2 ^ 63 - 1\<close> (\<^verbatim>\<open>SQLITE_FULL\<close>).\<close>

definition max_rowid :: "int \<Rightarrow> int list \<Rightarrow> int" where
  "max_rowid seq ids = fold max ids seq"

definition new_rowid :: "int \<Rightarrow> int list \<Rightarrow> int result" where
  "new_rowid seq ids =
     (if 2 ^ 63 - 1 \<le> max_rowid seq ids then Inl OperationalError
      else Inr (max_rowid seq ids + 1))"

text \<open>\<^verbatim>\<open>LIMIT ?\<close>: a negative bound is no bound.\<close>

definition sql_limit :: "int \<Rightarrow> 'a list \<Rightarrow> 'a list" where
  "sql_limit n rows = (if n < 0 then rows else take (nat n) rows)"

text \<open>
  Each statement of the source is a function on the store as its connection sees it.
  A statement fails in the order the module works in: preparing it (a missing table or
  column), binding its parameters (an integer out of range), taking the write lock, then
  the row id and the constraints of the table.
\<close>

definition sql_create_users :: "store \<Rightarrow> store result" where
  "sql_create_users db =
     (if has_users db then Inr db
      else if locked db then Inl OperationalError
      else Inr (db\<lparr>has_users := True, has_is_admin := True, users := [], seq_users := 0\<rparr>))"

definition sql_create_user_progress :: "store \<Rightarrow> store result" where
  "sql_create_user_progress db =
     (if has_user_progress db then Inr db
      else if locked db then Inl OperationalError
      else Inr (db\<lparr>has_user_progress := True, user_progress := [], seq_user_progress := 0\<rparr>))"

definition sql_create_user_events :: "store \<Rightarrow> store result" where
  "sql_create_user_events db =
     (if has_user_events db then Inr db
      else if locked db then Inl OperationalError
      else Inr (db\<lparr>has_user_events := True, user_events := [], seq_user_events := 0\<rparr>))"

definition sql_create_certificates :: "store \<Rightarrow> store result" where
  "sql_create_certificates db =
     (if has_certificates db then Inr db
      else if locked db then Inl OperationalError
      else Inr (db\<lparr>has_certificates := True, certificates := [], seq_certificates := 0\<rparr>))"

text \<open>\<^verbatim>\<open>SELECT is_admin FROM users LIMIT 1\<close>\<close>

definition sql_probe_is_admin :: "store \<Rightarrow> unit result" where
  "sql_probe_is_admin db =
     (if has_users db \<and> has_is_admin db then Inr () else Inl OperationalError)"

text \<open>\<^verbatim>\<open>ALTER TABLE users ADD COLUMN is_admin INTEGER DEFAULT 0\<close>\<close>

definition sql_add_is_admin :: "store \<Rightarrow> store result" where
  "sql_add_is_admin db =
     (if \<not> has_users db \<or> has_is_admin db then Inl OperationalError
      else if locked db then Inl OperationalError
      else Inr (db\<lparr>has_is_admin := True,
                    users := map (\<lambda>u. u\<lparr>u_is_admin := 0\<rparr>) (users db)\<rparr>))"

text \<open>\<^verbatim>\<open>SELECT COUNT(*) FROM users WHERE is_admin = 1\<close>\<close>

definition sql_count_admins :: "store \<Rightarrow> nat result" where
  "sql_count_admins db =
     (if has_users db \<and> has_is_admin db
      then Inr (length (filter (\<lambda>u. u_is_admin u = 1) (users db)))
      else Inl OperationalError)"

text \<open>\<^verbatim>\<open>SELECT id FROM users LIMIT 1\<close>, then \<^verbatim>\<open>fetchone\<close>\<close>

definition sql_first_user_id :: "store \<Rightarrow> int option result" where
  "sql_first_user_id db =
     (if has_users db
      then Inr (case users db of [] \<Rightarrow> None | u # _ \<Rightarrow> Some (u_id u))
      else Inl OperationalError)"

text \<open>\<^verbatim>\<open>UPDATE users SET is_admin = ? WHERE id = ?\<close>\<close>

definition sql_set_is_admin :: "store \<Rightarrow> int \<Rightarrow> int \<Rightarrow> store result" where
  "sql_set_is_admin db v user_id =
     (if \<not> (has_users db \<and> has_is_admin db) then Inl OperationalError
      else if \<not> (sqlite_int v \<and> sqlite_int user_id) then Inl OverflowError
      else if locked db then Inl OperationalError
      else Inr (db\<lparr>users :=
                  map (\<lambda>u. if u_id u = user_id then u\<lparr>u_is_admin := v\<rparr> else u) (users db)\<rparr>))"

text \<open>\<^verbatim>\<open>INSERT INTO users (username, password_hash, \<dots>, is_admin) VALUES (\<dots>)\<close>; the
  result carries \<^verbatim>\<open>cursor.lastrowid\<close>.\<close>

definition sql_insert_user ::
  "sql_time \<Rightarrow> store \<Rightarrow> string \<Rightarrow> string \<Rightarrow> profile_cols \<Rightarrow> int \<Rightarrow> (int \<times> store) result" where
  "sql_insert_user now db username password_hash profile adm =
     (if \<not> (has_users db \<and> has_is_admin db) then Inl OperationalError
      else if \<not> sqlite_int adm then Inl OverflowError
      else if locked db then Inl OperationalError
      else
        (case new_rowid (seq_users db) (map u_id (users db)) of
           Inl e \<Rightarrow> Inl e
         | Inr rowid \<Rightarrow>
             if username \<in> set (map u_username (users db)) then Inl IntegrityError
             else Inr (rowid,
               db\<lparr>users := users db @
                     [\<lparr>u_id = rowid, u_username = username, u_password_hash = password_hash,
                       u_profile = profile, u_is_admin = adm, u_created_at = now,
                       u_last_login = None\<rparr>],
                  seq_users := rowid\<rparr>)))"

text \<open>\<^verbatim>\<open>INSERT INTO user_progress (user_id) VALUES (?)\<close>, the other columns at their
  defaults\<close>

definition sql_insert_progress :: "sql_time \<Rightarrow> store \<Rightarrow> int \<Rightarrow> store result" where
  "sql_insert_progress now db user_id =
     (if \<not> has_user_progress db then Inl OperationalError
      else if \<not> sqlite_int user_id then Inl OverflowError
      else if locked db then Inl OperationalError
      else
        (case new_rowid (seq_user_progress db) (map p_id (user_progress db)) of
           Inl e \<Rightarrow> Inl e
         | Inr rowid \<Rightarrow>
             Inr (db\<lparr>user_progress := user_progress db @
                       [\<lparr>p_id = rowid, p_user_id = user_id, p_points = 0,
                         p_completed_tutorials = ''[]'', p_completed_challenges = ''[]'',
                         p_emoji_collection = ''[]'', p_last_updated = now\<rparr>],
                     seq_user_progress := rowid\<rparr>)))"

text \<open>\<^verbatim>\<open>UPDATE users SET last_login = CURRENT_TIMESTAMP WHERE id = ?\<close>\<close>

definition sql_update_last_login :: "sql_time \<Rightarrow> store \<Rightarrow> int \<Rightarrow> store result" where
  "sql_update_last_login now db user_id =
     (if \<not> has_users db then Inl OperationalError
      else if \<not> sqlite_int user_id then Inl OverflowError
      else if locked db then Inl OperationalError
      else Inr (db\<lparr>users :=
                  map (\<lambda>u. if u_id u = user_id then u\<lparr>u_last_login := Some now\<rparr> else u)
                    (users db)\<rparr>))"

text \<open>\<^verbatim>\<open>SELECT points, completed_tutorials, completed_challenges, emoji_collection
  FROM user_progress WHERE user_id = ?\<close>, then \<^verbatim>\<open>fetchone\<close>\<close>

definition sql_select_progress :: "store \<Rightarrow> int \<Rightarrow> progress_row option result" where
  "sql_select_progress db user_id =
     (if \<not> has_user_progress db then Inl OperationalError
      else if \<not> sqlite_int user_id then Inl OverflowError
      else Inr (find (\<lambda>p. p_user_id p = user_id) (user_progress db)))"

text \<open>\<^verbatim>\<open>UPDATE user_progress SET points = ?, completed_tutorials = ?,
  completed_challenges = ?, emoji_collection = ?, last_updated = CURRENT_TIMESTAMP
  WHERE user_id = ?\<close>\<close>

definition sql_update_progress ::
  "sql_time \<Rightarrow> store \<Rightarrow> int \<Rightarrow> string \<Rightarrow> string \<Rightarrow> string \<Rightarrow> int \<Rightarrow> store result" where
  "sql_update_progress now db pts tutorials challenges emojis user_id =
     (if \<not> has_user_progress db then Inl OperationalError
      else if \<not> (sqlite_int pts \<and> sqlite_int user_id) then Inl OverflowError
      else if locked db then Inl OperationalError
      else Inr (db\<lparr>user_progress :=
                  map (\<lambda>p. if p_user_id p = user_id
                            then p\<lparr>p_points := pts, p_completed_tutorials := tutorials,
                                   p_completed_challenges := challenges,
                                   p_emoji_collection := emojis, p_last_updated := now\<rparr>
                            else p)
                    (user_progress db)\<rparr>))"

text \<open>\<^verbatim>\<open>INSERT INTO user_events (user_id, event_type, event_details) VALUES (?, ?, ?)\<close>\<close>

definition sql_insert_event ::
  "sql_time \<Rightarrow> store \<Rightarrow> int \<Rightarrow> string \<Rightarrow> string option \<Rightarrow> store result" where
  "sql_insert_event now db user_id event_type event_details =
     (if \<not> has_user_events db then Inl OperationalError
      else if \<not> sqlite_int user_id then Inl OverflowError
      else if locked db then Inl OperationalError
      else
        (case new_rowid (seq_user_events db) (map e_id (user_events db)) of
           Inl e \<Rightarrow> Inl e
         | Inr rowid \<Rightarrow>
             Inr (db\<lparr>user_events := user_events db @
                       [\<lparr>e_id = rowid, e_user_id = user_id, e_event_type = event_type,
                         e_event_details = event_details, e_timestamp = now\<rparr>],
                     seq_user_events := rowid\<rparr>)))"

text \<open>\<^verbatim>\<open>SELECT event_type, event_details, timestamp FROM user_events WHERE user_id = ?
  ORDER BY timestamp DESC LIMIT ?\<close>. SQLite leaves the order of rows with equal
  timestamps open; the model takes one such order, and no theorem depends on it.\<close>

definition sql_select_events :: "store \<Rightarrow> int \<Rightarrow> int \<Rightarrow> event_row list result" where
  "sql_select_events db user_id limit =
     (if \<not> has_user_events db then Inl OperationalError
      else if \<not> (sqlite_int user_id \<and> sqlite_int limit) then Inl OverflowError
      else Inr (sql_limit limit
                 (rev (sort_key e_timestamp
                        (filter (\<lambda>e. e_user_id e = user_id) (user_events db))))))"

text \<open>\<^verbatim>\<open>INSERT INTO certificates (user_id, certificate_type, certificate_code)
  VALUES (?, ?, ?)\<close>; \<^verbatim>\<open>completed_date\<close> has no default and stays null.\<close>

definition sql_insert_certificate ::
  "sql_time \<Rightarrow> store \<Rightarrow> int \<Rightarrow> string \<Rightarrow> string \<Rightarrow> store result" where
  "sql_insert_certificate now db user_id certificate_type certificate_code =
     (if \<not> has_certificates db then Inl OperationalError
      else if \<not> sqlite_int user_id then Inl OverflowError
      else if locked db then Inl OperationalError
      else
        (case new_rowid (seq_certificates db) (map c_id (certificates db)) of
           Inl e \<Rightarrow> Inl e
         | Inr rowid \<Rightarrow>
             if certificate_code \<in> set (map c_certificate_code (certificates db))
             then Inl IntegrityError
             else Inr (db\<lparr>certificates := certificates db @
                            [\<lparr>c_id = rowid, c_user_id = user_id,
                              c_certificate_type = certificate_type, c_issue_date = now,
                              c_certificate_code = certificate_code,
                              c_completed_date = None\<rparr>],
                          seq_certificates := rowid\<rparr>)))"

text \<open>\<^verbatim>\<open>UPDATE certificates SET completed_date = CURRENT_TIMESTAMP
  WHERE certificate_code = ?\<close>\<close>

definition sql_complete_certificate :: "sql_time \<Rightarrow> store \<Rightarrow> string \<Rightarrow> store result" where
  "sql_complete_certificate now db certificate_code =
     (if \<not> has_certificates db then Inl OperationalError
      else if locked db then Inl OperationalError
      else Inr (db\<lparr>certificates :=
                  map (\<lambda>c. if c_certificate_code c = certificate_code
                            then c\<lparr>c_completed_date := Some now\<rparr> else c)
                    (certificates db)\<rparr>))"

text \<open>\<^verbatim>\<open>SELECT user_id, certificate_type FROM certificates WHERE certificate_code = ?\<close>,
  then \<^verbatim>\<open>fetchone\<close>\<close>

definition sql_select_certificate_owner :: "store \<Rightarrow> string \<Rightarrow> (int \<times> string) option result" where
  "sql_select_certificate_owner db certificate_code =
     (if \<not> has_certificates db then Inl OperationalError
      else Inr (map_option (\<lambda>c. (c_user_id c, c_certificate_type c))
                 (find (\<lambda>c. c_certificate_code c = certificate_code) (certificates db))))"

text \<open>\<^verbatim>\<open>SELECT \<dots> FROM certificates c JOIN users u ON c.user_id = u.id
  WHERE c.certificate_code = ?\<close>, then \<^verbatim>\<open>fetchone\<close>\<close>

definition sql_select_certificate_join ::
  "store \<Rightarrow> string \<Rightarrow> (certificate_row \<times> user_row) option result" where
  "sql_select_certificate_join db certificate_code =
     (if \<not> (has_certificates db \<and> has_users db) then Inl OperationalError
      else Inr (case [(c, u). c \<leftarrow> certificates db, c_certificate_code c = certificate_code,
                              u \<leftarrow> users db, c_user_id c = u_id u] of
                  [] \<Rightarrow> None
                | row # _ \<Rightarrow> Some row))"

text \<open>\<^verbatim>\<open>UPDATE users SET full_name = ?, \<dots>, school = ? WHERE id = ?\<close>\<close>

definition sql_update_profile :: "store \<Rightarrow> profile_cols \<Rightarrow> int \<Rightarrow> store result" where
  "sql_update_profile db profile user_id =
     (if \<not> has_users db then Inl OperationalError
      else if \<not> sqlite_int user_id then Inl OverflowError
      else if locked db then Inl OperationalError
      else Inr (db\<lparr>users :=
                  map (\<lambda>u. if u_id u = user_id then u\<lparr>u_profile := profile\<rparr> else u)
                    (users db)\<rparr>))"

text \<open>\<^verbatim>\<open>UPDATE users SET password_hash = ? WHERE id = ?\<close>\<close>

definition sql_update_password :: "store \<Rightarrow> string \<Rightarrow> int \<Rightarrow> store result" where
  "sql_update_password db new_password_hash user_id =
     (if \<not> has_users db then Inl OperationalError
      else if \<not> sqlite_int user_id then Inl OverflowError
      else if locked db then Inl OperationalError
      else Inr (db\<lparr>users :=
                  map (\<lambda>u. if u_id u = user_id
                            then u\<lparr>u_password_hash := new_password_hash\<rparr> else u)
                    (users db)\<rparr>))"

subsection \<open>The methods of \<^verbatim>\<open>DatabaseManager\<close>\<close>

text \<open>
  A method returns its outcome and the file as it leaves it. A connection closed
  without \<^verbatim>\<open>commit\<close> rolls its open transaction back, so a method that ends before
  its \<^verbatim>\<open>commit\<close> leaves the file as it found it. \<^verbatim>\<open>connect\<close> itself is taken to
  succeed: the manager exists only after \<^verbatim>\<open>initialize_database\<close> has opened the same
  file.
\<close>

text \<open>\<^verbatim>\<open>_run_migrations\<close>: the probe for the \<^verbatim>\<open>is_admin\<close> column, then the promotion of
  a first administrator.\<close>

definition run_migrations :: "store \<Rightarrow> unit result \<times> store" where
  "run_migrations db =
     (case (case sql_probe_is_admin db of
              Inr _ \<Rightarrow> Inr db
            | Inl OperationalError \<Rightarrow> sql_add_is_admin db
            | Inl e \<Rightarrow> Inl e) of
        Inl e \<Rightarrow> (Inl e, db)
      | Inr db1 \<Rightarrow>
          (case sql_count_admins db1 of
             Inl e \<Rightarrow> (Inl e, db1)
           | Inr admin_count \<Rightarrow>
               if admin_count = 0 then
                 (case sql_first_user_id db1 of
                    Inl e \<Rightarrow> (Inl e, db1)
                  | Inr None \<Rightarrow> (Inr (), db1)
                  | Inr (Some user_id) \<Rightarrow>
                      (case sql_set_is_admin db1 1 user_id of
                         Inl e \<Rightarrow> (Inl e, db1)
                       | Inr db2 \<Rightarrow> (Inr (), db2)))
               else (Inr (), db1)))"

definition initialize_database :: "store \<Rightarrow> unit result \<times> store" where
  "initialize_database db =
     (case sql_create_users db of
        Inl e \<Rightarrow> (Inl e, db)
      | Inr db1 \<Rightarrow>
          (case run_migrations db1 of
             (Inl e, db2) \<Rightarrow> (Inl e, db2)
           | (Inr _, db2) \<Rightarrow>
               (case sql_create_user_progress db2 of
                  Inl e \<Rightarrow> (Inl e, db2)
                | Inr db3 \<Rightarrow>
                    (case sql_create_user_events db3 of
                       Inl e \<Rightarrow> (Inl e, db3)
                     | Inr db4 \<Rightarrow>
                         (case sql_create_certificates db4 of
                            Inl e \<Rightarrow> (Inl e, db4)
                          | Inr db5 \<Rightarrow> (Inr (), db5))))))"

text \<open>\<^verbatim>\<open>log_event\<close>: whatever the insert raises is printed and dropped.\<close>

definition log_event ::
  "sql_time \<Rightarrow> store \<Rightarrow> int \<Rightarrow> string \<Rightarrow> string option \<Rightarrow> unit result \<times> store" where
  "log_event now db user_id event_type event_details =
     (case sql_insert_event now db user_id event_type event_details of
        Inl e \<Rightarrow> (Inr (), db)
      | Inr db1 \<Rightarrow> (Inr (), db1))"

text \<open>A Python \<^verbatim>\<open>dict\<close> of strings is an association list; \<^verbatim>\<open>d.get(k, default)\<close>:\<close>

definition dict_get :: "(string \<times> string) list \<Rightarrow> string \<Rightarrow> string \<Rightarrow> string" where
  "dict_get d k dflt = (case map_of d k of None \<Rightarrow> dflt | Some v \<Rightarrow> v)"

definition profile_of_dict :: "(string \<times> string) list \<Rightarrow> profile_cols" where
  "profile_of_dict profile_data =
     \<lparr>full_name = Some (dict_get profile_data ''full_name'' []),
      parent_name = Some (dict_get profile_data ''parent_name'' []),
      dob = Some (dict_get profile_data ''dob'' []),
      class_col = Some (dict_get profile_data ''class'' []),
      section_col = Some (dict_get profile_data ''section'' []),
      school = Some (dict_get profile_data ''school'' [])\<rparr>"

definition null_profile :: profile_cols where
  "null_profile =
     \<lparr>full_name = None, parent_name = None, dob = None, class_col = None,
      section_col = None, school = None\<rparr>"

text \<open>
  \<^verbatim>\<open>add_user\<close>. Its two inserts open a transaction on the method's connection, which
  holds the write lock until \<^verbatim>\<open>conn.commit()\<close>. \<^verbatim>\<open>log_event\<close> is called before that,
  on a connection of its own: it finds the file as committed so far, and locked. The
  commit then puts the method's two tables on top of what \<^verbatim>\<open>log_event\<close> left.
  \<^verbatim>\<open>if profile_data:\<close> is false for \<^verbatim>\<open>None\<close> and for the empty dict alike.
\<close>

definition add_user ::
  "sql_time \<Rightarrow> store \<Rightarrow> string \<Rightarrow> string \<Rightarrow> (string \<times> string) list option \<Rightarrow> bool
     \<Rightarrow> int option result \<times> store" where
  "add_user now db username password_hash profile_data is_admin =
     (case sql_insert_user now db username password_hash
             (case profile_data of
                None \<Rightarrow> null_profile
              | Some d \<Rightarrow> if d = [] then null_profile else profile_of_dict d)
             (if is_admin then 1 else 0) of
        Inl IntegrityError \<Rightarrow> (Inr None, db)
      | Inl e \<Rightarrow> (Inl e, db)
      | Inr (user_id, w1) \<Rightarrow>
          (case sql_insert_progress now w1 user_id of
             Inl IntegrityError \<Rightarrow> (Inr None, db)
           | Inl e \<Rightarrow> (Inl e, db)
           | Inr w2 \<Rightarrow>
               (case log_event now (db\<lparr>locked := True\<rparr>) user_id ''user_created''
                       (Some (''User account created for '' @ username)) of
                  (Inl IntegrityError, f) \<Rightarrow> (Inr None, f\<lparr>locked := False\<rparr>)
                | (Inl e, f) \<Rightarrow> (Inl e, f\<lparr>locked := False\<rparr>)
                | (Inr _, f) \<Rightarrow>
                    (Inr (Some user_id),
                     w2\<lparr>user_events := user_events f,
                        seq_user_events := seq_user_events f\<rparr>))))"

definition update_last_login :: "sql_time \<Rightarrow> store \<Rightarrow> int \<Rightarrow> unit result \<times> store" where
  "update_last_login now db user_id =
     (case sql_update_last_login now db user_id of
        Inl e \<Rightarrow> (Inl e, db)
      | Inr db1 \<Rightarrow> (Inr (), db1))"

text \<open>The dictionary \<^verbatim>\<open>get_user_progress\<close> returns:\<close>

record progress =
  pg_points :: int
  pg_completed_tutorials :: "string list"
  pg_completed_challenges :: "string list"
  pg_emoji_collection :: "string list"

definition get_user_progress :: "store \<Rightarrow> int \<Rightarrow> progress result" where
  "get_user_progress db user_id =
     (case sql_select_progress db user_id of
        Inl e \<Rightarrow> Inl e
      | Inr None \<Rightarrow>
          Inr \<lparr>pg_points = 0, pg_completed_tutorials = [], pg_completed_challenges = [],
               pg_emoji_collection = []\<rparr>
      | Inr (Some row) \<Rightarrow>
          (case json_loads (p_completed_tutorials row) of
             Inl e \<Rightarrow> Inl e
           | Inr tutorials \<Rightarrow>
               (case json_loads (p_completed_challenges row) of
                  Inl e \<Rightarrow> Inl e
                | Inr challenges \<Rightarrow>
                    (case json_loads (p_emoji_collection row) of
                       Inl e \<Rightarrow> Inl e
                     | Inr emojis \<Rightarrow>
                         Inr \<lparr>pg_points = p_points row, pg_completed_tutorials = tutorials,
                              pg_completed_challenges = challenges,
                              pg_emoji_collection = emojis\<rparr>))))"

definition update_user_progress ::
  "sql_time \<Rightarrow> store \<Rightarrow> int \<Rightarrow> int \<Rightarrow> string list \<Rightarrow> string list \<Rightarrow> string list
     \<Rightarrow> bool result \<times> store" where
  "update_user_progress now db user_id points completed_tutorials completed_challenges
       emoji_collection =
     (case sql_update_progress now db points (json_dumps completed_tutorials)
             (json_dumps completed_challenges) (json_dumps emoji_collection) user_id of
        Inl e \<Rightarrow> (Inr False, db)
      | Inr db1 \<Rightarrow> (Inr True, db1))"

text \<open>An entry of the list \<^verbatim>\<open>get_user_events\<close> returns:\<close>

record event =
  ev_event_type :: string
  ev_event_details :: "string option"
  ev_timestamp :: sql_time

definition get_user_events :: "store \<Rightarrow> int \<Rightarrow> int \<Rightarrow> event list result" where
  "get_user_events db user_id limit =
     (case sql_select_events db user_id limit of
        Inl e \<Rightarrow> Inl e
      | Inr events \<Rightarrow>
          Inr (map (\<lambda>r. \<lparr>ev_event_type = e_event_type r,
                          ev_event_details = e_event_details r,
                          ev_timestamp = e_timestamp r\<rparr>) events))"

text \<open>\<^verbatim>\<open>create_certificate\<close> commits its insert before it logs the event.\<close>

definition create_certificate ::
  "sql_time \<Rightarrow> string \<Rightarrow> store \<Rightarrow> int \<Rightarrow> string \<Rightarrow> string option result \<times> store" where
  "create_certificate now certificate_code db user_id certificate_type =
     (case sql_insert_certificate now db user_id certificate_type certificate_code of
        Inl e \<Rightarrow> (Inr None, db)
      | Inr db1 \<Rightarrow>
          (case log_event now db1 user_id ''certificate_created''
                  (Some (''Certificate of type '' @ [CHR 0x27] @ certificate_type @ [CHR 0x27]
                         @ '' created with code '' @ certificate_code)) of
             (Inl e, db2) \<Rightarrow> (Inr None, db2)
           | (Inr _, db2) \<Rightarrow> (Inr (Some certificate_code), db2)))"

definition complete_certificate :: "sql_time \<Rightarrow> store \<Rightarrow> string \<Rightarrow> bool result \<times> store" where
  "complete_certificate now db certificate_code =
     (case sql_complete_certificate now db certificate_code of
        Inl e \<Rightarrow> (Inr False, db)
      | Inr db1 \<Rightarrow>
          (case sql_select_certificate_owner db1 certificate_code of
             Inl e \<Rightarrow> (Inr False, db1)
           | Inr None \<Rightarrow> (Inr True, db1)
           | Inr (Some (user_id, cert_type)) \<Rightarrow>
               (case log_event now db1 user_id ''certificate_completed''
                       (Some (''Certificate of type '' @ [CHR 0x27] @ cert_type @ [CHR 0x27]
                              @ '' with code '' @ certificate_code @ '' completed'')) of
                  (Inl e, db2) \<Rightarrow> (Inr False, db2)
                | (Inr _, db2) \<Rightarrow> (Inr True, db2))))"

text \<open>The dictionary \<^verbatim>\<open>verify_certificate\<close> returns: \<open>Valid\<close> with \<^verbatim>\<open>"is_valid": True\<close>
  and the other keys, or \<open>NotValid\<close> for \<^verbatim>\<open>{"is_valid": False}\<close>.\<close>

record verification =
  v_certificate_type :: string
  v_issue_date :: sql_time
  v_completed_date :: "sql_time option"
  v_username :: string
  v_profile_data :: "(string \<times> string) list"
  v_user_id :: int
  v_is_completed :: bool

datatype verify_result = Valid verification | NotValid

fun is_valid :: "verify_result \<Rightarrow> bool" where
  "is_valid (Valid _) = True"
| "is_valid NotValid = False"

text \<open>\<^verbatim>\<open>x or ''\<close> on a nullable text column\<close>

definition or_empty :: "string option \<Rightarrow> string" where
  "or_empty x = (case x of None \<Rightarrow> [] | Some v \<Rightarrow> v)"

definition verify_certificate :: "store \<Rightarrow> string \<Rightarrow> verify_result result" where
  "verify_certificate db certificate_code =
     (case sql_select_certificate_join db certificate_code of
        Inl e \<Rightarrow> Inl e
      | Inr None \<Rightarrow> Inr NotValid
      | Inr (Some (c, u)) \<Rightarrow>
          Inr (Valid
            \<lparr>v_certificate_type = c_certificate_type c,
             v_issue_date = c_issue_date c,
             v_completed_date = c_completed_date c,
             v_username = u_username u,
             v_profile_data =
               [(''full_name'', or_empty (full_name (u_profile u))),
                (''parent_name'', or_empty (parent_name (u_profile u))),
                (''dob'', or_empty (dob (u_profile u))),
                (''class'', or_empty (class_col (u_profile u))),
                (''section'', or_empty (section_col (u_profile u))),
                (''school'', or_empty (school (u_profile u)))],
             v_user_id = u_id u,
             v_is_completed = (c_completed_date c \<noteq> None)\<rparr>))"

definition update_user_profile ::
  "store \<Rightarrow> int \<Rightarrow> (string \<times> string) list \<Rightarrow> bool result \<times> store" where
  "update_user_profile db user_id profile_data =
     (case sql_update_profile db (profile_of_dict profile_data) user_id of
        Inl e \<Rightarrow> (Inr False, db)
      | Inr db1 \<Rightarrow> (Inr True, db1))"

definition set_admin_status :: "store \<Rightarrow> int \<Rightarrow> bool \<Rightarrow> bool result \<times> store" where
  "set_admin_status db user_id is_admin =
     (case sql_set_is_admin db (if is_admin then 1 else 0) user_id of
        Inl e \<Rightarrow> (Inr False, db)
      | Inr db1 \<Rightarrow> (Inr True, db1))"

definition reset_user_password ::
  "sql_time \<Rightarrow> store \<Rightarrow> int \<Rightarrow> string \<Rightarrow> bool result \<times> store" where
  "reset_user_password now db user_id new_password_hash =
     (case sql_update_password db new_password_hash user_id of
        Inl e \<Rightarrow> (Inr False, db)
      | Inr db1 \<Rightarrow>
          (case log_event now db1 user_id ''password_reset''
                  (Some ''Password was reset by administrator'') of
             (Inl e, db2) \<Rightarrow> (Inr False, db2)
           | (Inr _, db2) \<Rightarrow> (Inr True, db2)))"

text \<open>
  \<^verbatim>\<open>migrate_data_from_json\<close>, the import of the legacy files. The files are arguments,
  as parsed: \<open>users_json\<close> is \<^verbatim>\<open>users.json\<close> (\<open>None\<close> when it does not exist), a list of
  user names with their password hashes, and \<open>progress_file username\<close> is
  \<^verbatim>\<open>progress_<username>.json\<close>. \<^verbatim>\<open>if user_id:\<close> is false for \<^verbatim>\<open>None\<close> and for 0.
  The import writes through \<^verbatim>\<open>add_user\<close> and \<^verbatim>\<open>update_user_progress\<close> only.
\<close>

fun migrate_users ::
  "sql_time \<Rightarrow> store \<Rightarrow> (string \<times> string) list \<Rightarrow> (string \<Rightarrow> progress option)
     \<Rightarrow> bool result \<times> store" where
  "migrate_users now db [] progress_file = (Inr True, db)"
| "migrate_users now db ((username, password) # rest) progress_file =
     (case add_user now db username password None False of
        (Inl e, db1) \<Rightarrow> (Inr False, db1)
      | (Inr None, db1) \<Rightarrow> migrate_users now db1 rest progress_file
      | (Inr (Some user_id), db1) \<Rightarrow>
          if user_id = 0 then migrate_users now db1 rest progress_file
          else
            (case progress_file username of
               None \<Rightarrow> migrate_users now db1 rest progress_file
             | Some progress_data \<Rightarrow>
                 (case update_user_progress now db1 user_id (pg_points progress_data)
                         (pg_completed_tutorials progress_data)
                         (pg_completed_challenges progress_data)
                         (pg_emoji_collection progress_data) of
                    (Inl e, db2) \<Rightarrow> (Inr False, db2)
                  | (Inr _, db2) \<Rightarrow> migrate_users now db2 rest progress_file)))"

definition migrate_data_from_json ::
  "sql_time \<Rightarrow> store \<Rightarrow> (string \<times> string) list option \<Rightarrow> (string \<Rightarrow> progress option)
     \<Rightarrow> bool result \<times> store" where
  "migrate_data_from_json now db users_json progress_file =
     (case users_json of
        None \<Rightarrow> (Inr False, db)
      | Some users_data \<Rightarrow> migrate_users now db users_data progress_file)"

section \<open>Properties\<close>

subsection \<open>States of the store\<close>

text \<open>\<open>ready\<close>: the file as \<^verbatim>\<open>initialize_database\<close> leaves it, with no other connection
  writing.\<close>

definition ready :: "store \<Rightarrow> bool" where
  "ready db \<longleftrightarrow>
     has_users db \<and> has_is_admin db \<and> has_user_progress db \<and> has_user_events db \<and>
     has_certificates db \<and> \<not> locked db"

text \<open>
  \<open>store_inv\<close>: a table that does not exist has no rows; what the schema keeps (primary
  keys and \<^verbatim>\<open>UNIQUE\<close> columns without repetition, row ids within 64 bits); and what
  the methods keep although SQLite, with foreign keys off, does not check it: every
  progress row belongs to a user row.
\<close>

definition store_inv :: "store \<Rightarrow> bool" where
  "store_inv db \<longleftrightarrow>
     (has_users db \<or> users db = []) \<and>
     (has_certificates db \<or> certificates db = []) \<and>
     distinct (map u_id (users db)) \<and>
     distinct (map u_username (users db)) \<and>
     distinct (map c_id (certificates db)) \<and>
     distinct (map c_certificate_code (certificates db)) \<and>
     sqlite_int (seq_users db) \<and>
     list_all (\<lambda>u. sqlite_int (u_id u)) (users db) \<and>
     list_all (\<lambda>p. p_user_id p \<in> set (map u_id (users db))) (user_progress db)"

text \<open>A table has a row id left for \<^verbatim>\<open>AUTOINCREMENT\<close>.\<close>

definition rowid_left :: "int \<Rightarrow> int list \<Rightarrow> bool" where
  "rowid_left seq ids \<longleftrightarrow> max_rowid seq ids < 2 ^ 63 - 1"

definition admin_count :: "store \<Rightarrow> nat" where
  "admin_count db = length (filter (\<lambda>u. u_is_admin u = 1) (users db))"

text \<open>One call of a method that writes; \<open>step\<^sup>*\<^sup>*\<close> is any sequence of such calls.\<close>

inductive step :: "store \<Rightarrow> store \<Rightarrow> bool" where
  step_initialize_database: "step db (snd (initialize_database db))"
| step_add_user: "step db (snd (add_user now db username password_hash profile_data is_admin))"
| step_update_last_login: "step db (snd (update_last_login now db user_id))"
| step_update_user_progress:
    "step db (snd (update_user_progress now db user_id points tutorials challenges emojis))"
| step_log_event: "step db (snd (log_event now db user_id event_type event_details))"
| step_create_certificate:
    "step db (snd (create_certificate now certificate_code db user_id certificate_type))"
| step_complete_certificate: "step db (snd (complete_certificate now db certificate_code))"
| step_update_user_profile: "step db (snd (update_user_profile db user_id profile))"
| step_set_admin_status: "step db (snd (set_admin_status db user_id is_admin))"
| step_reset_user_password:
    "step db (snd (reset_user_password now db user_id new_password_hash))"

text \<open>\<open>completed db r\<close>: the certificate \<open>r\<close> is a row of the store, with a completion
  date; \<open>issued db i\<close>: the store has a row of id \<open>i\<close> without one.\<close>

definition completed :: "store \<Rightarrow> certificate_row \<Rightarrow> bool" where
  "completed db r \<longleftrightarrow>
     (\<exists>r' \<in> set (certificates db).
        c_id r' = c_id r \<and> c_user_id r' = c_user_id r \<and>
        c_certificate_type r' = c_certificate_type r \<and> c_issue_date r' = c_issue_date r \<and>
        c_certificate_code r' = c_certificate_code r \<and> c_completed_date r' \<noteq> None)"

definition issued :: "store \<Rightarrow> int \<Rightarrow> bool" where
  "issued db i \<longleftrightarrow>
     (\<exists>r \<in> set (certificates db). c_id r = i \<and> c_completed_date r = None)"

subsection \<open>Example stores\<close>

text \<open>A new file after \<^verbatim>\<open>DatabaseManager()\<close>; then with one user; then with a certificate
  of that user, \<open>uuid_a\<close> being the token drawn; then with the certificate completed
  within the second of its creation.\<close>

definition db_init :: store where
  "db_init = snd (initialize_database empty_file)"

definition db_ada :: store where
  "db_ada = snd (add_user 100 db_init ''ada'' ''hash-a'' None False)"

definition uuid_a :: string where
  "uuid_a = ''3f2b8c1e-6d4a-4f7b-9a1c-5e8d2b7c4a10''"

definition db_cert :: store where
  "db_cert = snd (create_certificate 200 uuid_a db_ada 1 ''python-basics'')"

definition db_done :: store where
  "db_done = snd (complete_certificate 200 db_cert uuid_a)"

definition row_done :: certificate_row where
  "row_done = \<lparr>c_id = 1, c_user_id = 1, c_certificate_type = ''python-basics'',
                c_issue_date = 200, c_certificate_code = uuid_a, c_completed_date = Some 200\<rparr>"

subsection \<open>The codec reads back what it wrote\<close>

lemma hexval_hexdigit: "d < 16 \<Longrightarrow> hexval (hexdigit d) = Some d"
  by (auto simp: hexval_def hexdigit_def Let_def)

lemma hexval_zero: "hexval (CHR ''0'') = Some 0"
  by (simp add: hexval_def)

lemma decode_u00:
  assumes "n < 256"
  shows "decode_uXXXX (CHR ''0'') (CHR ''0'') (hexdigit (n div 16)) (hexdigit (n mod 16)) = Some n"
proof -
  have "n div 16 < 16" using assms by simp
  then have hi: "hexval (hexdigit (n div 16)) = Some (n div 16)" by (rule hexval_hexdigit)
  have lo: "hexval (hexdigit (n mod 16)) = Some (n mod 16)" by (rule hexval_hexdigit) simp
  show ?thesis by (simp add: decode_uXXXX_def hexval_zero hi lo)
qed

lemma of_char_lt_256: "(of_char c :: nat) < 256"
  by (metis of_char_mod_256 mod_less_divisor zero_less_numeral)

lemma scanstring_escape_char:
  "scanstring (escape_char c @ rest) = prepend c (scanstring rest)"
proof -
  let ?n = "of_char c :: nat"
  have n: "?n < 256" by (rule of_char_lt_256)
  have u: "decode_uXXXX (CHR ''0'') (CHR ''0'') (hexdigit (?n div 16)) (hexdigit (?n mod 16)) = Some ?n"
    using decode_u00[OF n] .
  show ?thesis
    by (auto simp: escape_char_def backslash_def u n)
qed

lemma scanstring_encoded:
  "scanstring (concat (map escape_char s) @ CHR 0x22 # rest) = Inr (s, rest)"
  by (induction s) (simp_all add: scanstring_escape_char prepend_def)

lemma skip_ws_Cons: "\<not> is_ws c \<Longrightarrow> skip_ws (c # s) = c # s"
  by (simp add: skip_ws_def)

lemma skip_ws_space: "skip_ws (CHR '' '' # s) = skip_ws s"
  by (simp add: skip_ws_def is_ws_def)

lemma skip_ws_Nil: "skip_ws [] = []"
  by (simp add: skip_ws_def)

lemma join_items_starts_quote:
  "\<exists>t. join_items (map encode_basestring_ascii (y # ys)) = CHR 0x22 # t"
  by (cases ys) (simp_all add: encode_basestring_ascii_def)

lemma JSONArray_encoded:
  "xs \<noteq> [] \<Longrightarrow>
   JSONArray (join_items (map encode_basestring_ascii xs) @ CHR '']'' # rest) = Inr (xs, rest)"
proof (induction xs rule: join_items.induct[case_names Nil One More])
  case Nil
  then show ?case by simp
next
  case (One x)
  show ?case
    by (subst JSONArray.simps)
       (simp add: encode_basestring_ascii_def scanstring_encoded skip_ws_Cons is_ws_def)
next
  case (More x y ys)
  obtain t where t: "join_items (map encode_basestring_ascii (y # ys)) = CHR 0x22 # t"
    using join_items_starts_quote by blast
  have IH: "JSONArray (CHR 0x22 # t @ CHR '']'' # rest) = Inr (y # ys, rest)"
    using More.IH t by simp
  have ws: "skip_ws (CHR '' '' # CHR 0x22 # t @ CHR '']'' # rest) = CHR 0x22 # t @ CHR '']'' # rest"
    by (simp add: skip_ws_space skip_ws_Cons is_ws_def)
  have "JSONArray (encode_basestring_ascii x @ '', '' @ (CHR 0x22 # t) @ CHR '']'' # rest)
      = Inr (x # y # ys, rest)"
    by (subst JSONArray.simps)
       (simp add: encode_basestring_ascii_def scanstring_encoded skip_ws_Cons is_ws_def
          prepend_def IH ws)
  then show ?case using t by simp
qed

lemma json_roundtrip: "json_loads (json_dumps xs) = Inr xs"
proof (cases xs)
  case Nil
  then show ?thesis
    by (simp add: json_loads_def json_dumps_def skip_ws_Cons is_ws_def skip_ws_Nil)
next
  case (Cons x ys)
  obtain t where t: "join_items (map encode_basestring_ascii xs) = CHR 0x22 # t"
    using join_items_starts_quote Cons by blast
  have items: "JSONArray (CHR 0x22 # t @ '']'') = Inr (xs, [])"
    using JSONArray_encoded[of xs "[]"] Cons t by simp
  show ?thesis
    by (simp add: json_loads_def json_dumps_def t skip_ws_Cons is_ws_def skip_ws_Nil items)
qed

lemma json_loads_empty: "json_loads ''[]'' = Inr []"
  using json_roundtrip[of "[]"] by (simp add: json_dumps_def)

subsection \<open>Lists and row ids\<close>

lemma map_if_untouched:
  "(\<And>x. x \<in> set xs \<Longrightarrow> \<not> P x) \<Longrightarrow> map (\<lambda>x. if P x then f x else x) xs = xs"
  by (intro map_idI) auto


lemma find_append_None:
  "find P xs = None \<Longrightarrow> find P (xs @ ys) = find P ys"
  by (induction xs) (auto split: if_splits)

lemma count_unique:
  "distinct (map f xs) \<Longrightarrow> k \<in> set (map f xs) \<Longrightarrow> length (filter (\<lambda>x. f x = k) xs) = 1"
proof (induction xs)
  case Nil
  then show ?case by simp
next
  case (Cons x xs)
  show ?case
  proof (cases "f x = k")
    case True
    then have "k \<notin> set (map f xs)" using Cons.prems(1) by auto
    then have "filter (\<lambda>x. f x = k) xs = []" by (auto simp: filter_empty_conv)
    then show ?thesis using True by simp
  next
    case False
    then show ?thesis using Cons by auto
  qed
qed

lemma max_rowid_Max: "max_rowid seq ids = Max (set (seq # ids))"
  unfolding max_rowid_def by (rule Max.set_eq_fold[symmetric])


lemma max_rowid_ge_id: "i \<in> set ids \<Longrightarrow> i \<le> max_rowid seq ids"
  by (simp add: max_rowid_Max)

lemma new_rowid_fresh: "new_rowid seq ids = Inr i \<Longrightarrow> i \<notin> set ids"
  using max_rowid_ge_id[of i ids seq] by (auto simp: new_rowid_def split: if_splits)


lemma new_rowid_left: "rowid_left seq ids \<Longrightarrow> new_rowid seq ids = Inr (max_rowid seq ids + 1)"
  by (simp add: new_rowid_def rowid_left_def)

subsection \<open>\<^verbatim>\<open>log_event\<close> in isolation\<close>


lemma log_event_locked:
  "locked db \<Longrightarrow> log_event now db user_id event_type event_details = (Inr (), db)"
  by (simp add: log_event_def sql_insert_event_def split: sum.splits)

subsection \<open>\<^verbatim>\<open>add_user\<close>\<close>

text \<open>The event of \<^verbatim>\<open>add_user\<close> is never written: \<^verbatim>\<open>log_event\<close> meets the lock of the
  transaction that called it.\<close>

lemma add_user_log_event:
  "log_event now (db\<lparr>locked := True\<rparr>) user_id event_type event_details
   = (Inr (), db\<lparr>locked := True\<rparr>)"
  by (simp add: log_event_locked)

lemma add_user_unfold:
  "add_user now db username password_hash profile_data is_admin =
     (case sql_insert_user now db username password_hash
             (case profile_data of
                None \<Rightarrow> null_profile
              | Some d \<Rightarrow> if d = [] then null_profile else profile_of_dict d)
             (if is_admin then 1 else 0) of
        Inl IntegrityError \<Rightarrow> (Inr None, db)
      | Inl e \<Rightarrow> (Inl e, db)
      | Inr (user_id, w1) \<Rightarrow>
          (case sql_insert_progress now w1 user_id of
             Inl IntegrityError \<Rightarrow> (Inr None, db)
           | Inl e \<Rightarrow> (Inl e, db)
           | Inr w2 \<Rightarrow>
               (Inr (Some user_id),
                w2\<lparr>user_events := user_events db, seq_user_events := seq_user_events db\<rparr>)))"
  by (simp add: add_user_def add_user_log_event cong: sum.case_cong)

lemma add_user_success:
  assumes "add_user now db username password_hash profile_data is_admin = (Inr (Some uid), db')"
  shows "new_rowid (seq_users db) (map u_id (users db)) = Inr uid"
    and "username \<notin> set (map u_username (users db))"
    and "has_users db \<and> has_is_admin db \<and> has_user_progress db \<and> \<not> locked db"
    and "sqlite_int uid"
    and "users db' = users db @
           [\<lparr>u_id = uid, u_username = username, u_password_hash = password_hash,
             u_profile = (case profile_data of
                            None \<Rightarrow> null_profile
                          | Some d \<Rightarrow> if d = [] then null_profile else profile_of_dict d),
             u_is_admin = (if is_admin then 1 else 0), u_created_at = now,
             u_last_login = None\<rparr>]"
    and "user_progress db' = user_progress db @
           [\<lparr>p_id = seq_user_progress db', p_user_id = uid, p_points = 0,
             p_completed_tutorials = ''[]'', p_completed_challenges = ''[]'',
             p_emoji_collection = ''[]'', p_last_updated = now\<rparr>]"
    and "seq_users db' = uid"
    and "user_events db' = user_events db \<and> certificates db' = certificates db"
    and "has_users db' = has_users db \<and> has_is_admin db' = has_is_admin db
         \<and> has_user_progress db' = has_user_progress db
         \<and> has_user_events db' = has_user_events db
         \<and> has_certificates db' = has_certificates db \<and> locked db' = locked db"
  using assms
  unfolding add_user_unfold sql_insert_user_def sql_insert_progress_def
  by (auto split: sum.splits error.splits if_splits prod.splits)

lemma add_user_cases:
  "snd (add_user now db username pw pd adm) = db
   \<or> (\<exists>uid. add_user now db username pw pd adm
           = (Inr (Some uid), snd (add_user now db username pw pd adm)))"
  unfolding add_user_unfold
  by (auto split: sum.splits error.splits prod.splits)


subsection \<open>Certificates\<close>

lemma concat_map_if:
  "concat (map (\<lambda>u. if Q u then [f u] else []) us) = map f (filter Q us)"
  by (induction us) auto

lemma join_rows:
  "[(c, u). c \<leftarrow> cs, c_certificate_code c = k, u \<leftarrow> us, c_user_id c = u_id u]
   = concat (map (\<lambda>c. map (Pair c) (filter (\<lambda>u. c_user_id c = u_id u) us))
                 (filter (\<lambda>c. c_certificate_code c = k) cs))"
  by (induction cs) (auto simp: concat_map_if)

lemma join_unknown:
  assumes "has_certificates db" and "has_users db"
    and "k \<notin> set (map c_certificate_code (certificates db))"
  shows "verify_certificate db k = Inr NotValid"
proof -
  have "filter (\<lambda>c. c_certificate_code c = k) (certificates db) = []"
    using assms(3) by (auto simp: filter_empty_conv)
  then show ?thesis
    using assms(1,2)
    by (simp add: verify_certificate_def sql_select_certificate_join_def join_rows)
qed

lemma join_single:
  assumes "has_certificates db" and "has_users db"
    and "filter (\<lambda>c. c_certificate_code c = k) (certificates db) = [c]"
    and "c_user_id c \<in> set (map u_id (users db))"
  shows "\<exists>v. verify_certificate db k = Inr (Valid v)
           \<and> v_certificate_type v = c_certificate_type c
           \<and> v_completed_date v = c_completed_date c
           \<and> v_is_completed v = (c_completed_date c \<noteq> None)
           \<and> v_user_id v = c_user_id c"
proof -
  have "filter (\<lambda>u. c_user_id c = u_id u) (users db) \<noteq> []"
    using assms(4) by (auto simp: filter_empty_conv)
  then obtain u rest where u: "filter (\<lambda>u. c_user_id c = u_id u) (users db) = u # rest"
    by (cases "filter (\<lambda>u. c_user_id c = u_id u) (users db)") auto
  then have "u \<in> set (filter (\<lambda>u. c_user_id c = u_id u) (users db))" by simp
  then have uid: "u_id u = c_user_id c" by simp
  show ?thesis
    using assms(1,2) uid
    by (simp add: verify_certificate_def sql_select_certificate_join_def join_rows assms(3) u)
qed

lemma create_certificate_success:
  assumes "create_certificate now k db user_id ty = (Inr (Some c), db1)"
  shows "c = k"
    and "k \<notin> set (map c_certificate_code (certificates db))"
    and "has_certificates db \<and> \<not> locked db \<and> sqlite_int user_id"
    and "certificates db1 = certificates db @
           [\<lparr>c_id = seq_certificates db1, c_user_id = user_id, c_certificate_type = ty,
             c_issue_date = now, c_certificate_code = k, c_completed_date = None\<rparr>]"
    and "new_rowid (seq_certificates db) (map c_id (certificates db)) = Inr (seq_certificates db1)"
    and "users db1 = users db \<and> user_progress db1 = user_progress db
         \<and> seq_users db1 = seq_users db"
    and "has_users db1 = has_users db \<and> has_is_admin db1 = has_is_admin db
         \<and> has_user_progress db1 = has_user_progress db
         \<and> has_user_events db1 = has_user_events db
         \<and> has_certificates db1 = has_certificates db \<and> locked db1 = locked db"
  using assms
  unfolding create_certificate_def sql_insert_certificate_def log_event_def sql_insert_event_def
  by (auto split: sum.splits if_splits prod.splits)

lemma create_certificate_cases:
  "snd (create_certificate now k db user_id ty) = db
   \<or> (\<exists>c. create_certificate now k db user_id ty
           = (Inr (Some c), snd (create_certificate now k db user_id ty)))"
  by (auto simp: create_certificate_def log_event_def split: sum.splits prod.splits)

lemma complete_certificate_effect:
  assumes "has_certificates db" and "\<not> locked db"
  shows "fst (complete_certificate now db k) = Inr True"
    and "certificates (snd (complete_certificate now db k))
         = map (\<lambda>c. if c_certificate_code c = k then c\<lparr>c_completed_date := Some now\<rparr> else c)
             (certificates db)"
    and "users (snd (complete_certificate now db k)) = users db"
    and "has_users (snd (complete_certificate now db k)) = has_users db
         \<and> has_certificates (snd (complete_certificate now db k))"
  using assms
  unfolding complete_certificate_def sql_complete_certificate_def
    sql_select_certificate_owner_def log_event_def sql_insert_event_def
  by (auto split: sum.splits option.splits if_splits prod.splits)

subsection \<open>The bootstrap migration\<close>

lemma promote_one:
  assumes "distinct (map u_id us)" and "uid \<in> set (map u_id us)"
    and "filter (\<lambda>u. u_is_admin u = 1) us = []"
  shows "length (filter (\<lambda>u. u_is_admin u = 1)
           (map (\<lambda>u. if u_id u = uid then u\<lparr>u_is_admin := 1\<rparr> else u) us)) = 1"
  using assms
proof (induction us)
  case Nil
  then show ?case by simp
next
  case (Cons u us)
  show ?case
  proof (cases "u_id u = uid")
    case True
    then have "uid \<notin> set (map u_id us)" using Cons.prems(1) by auto
    then have "map (\<lambda>u. if u_id u = uid then u\<lparr>u_is_admin := 1\<rparr> else u) us = us"
      by (intro map_if_untouched) auto
    then show ?thesis using True Cons.prems(3) by (simp split: if_splits)
  next
    case False
    then show ?thesis using Cons by (auto split: if_splits)
  qed
qed

lemma run_migrations_bootstrap:
  assumes "has_users db" and "\<not> locked db" and "store_inv db" and "users db \<noteq> []"
    and "has_is_admin db \<longrightarrow> admin_count db = 0"
  shows "fst (run_migrations db) = Inr ()"
    and "admin_count (snd (run_migrations db)) = 1"
    and "has_users (snd (run_migrations db)) \<and> has_is_admin (snd (run_migrations db))
         \<and> \<not> locked (snd (run_migrations db))"
proof -
  define us where "us = (if has_is_admin db then users db else map (\<lambda>u. u\<lparr>u_is_admin := 0\<rparr>) (users db))"
  define db1 where "db1 = (if has_is_admin db then db else db\<lparr>has_is_admin := True, users := us\<rparr>)"
  obtain u rest where u: "users db = u # rest" using assms(4) by (cases "users db") auto
  have ids: "map u_id us = map u_id (users db)" by (simp add: us_def)
  have none: "filter (\<lambda>u. u_is_admin u = 1) us = []"
    using assms(5) by (auto simp: us_def admin_count_def filter_empty_conv)
  have d: "distinct (map u_id us)" using assms(3) ids by (simp add: store_inv_def)
  have hd_id: "us \<noteq> [] \<and> u_id (hd us) = u_id u" using u by (simp add: us_def)
  have rng: "sqlite_int (u_id u)" using assms(3) u by (simp add: store_inv_def)
  have mem: "u_id u \<in> set (map u_id us)" using ids u by simp
  have one: "length (filter (\<lambda>x. u_is_admin x = 1)
           (map (\<lambda>x. if u_id x = u_id u then x\<lparr>u_is_admin := 1\<rparr> else x) us)) = 1"
    using d mem none by (rule promote_one)
  have run: "run_migrations db
      = (Inr (), db1\<lparr>users := map (\<lambda>x. if u_id x = u_id u then x\<lparr>u_is_admin := 1\<rparr> else x) us\<rparr>)"
  proof (cases "has_is_admin db")
    case True
    then have "us = users db" "db1 = db" by (simp_all add: us_def db1_def)
    then show ?thesis
      using True assms(1,2) none u rng
      by (simp add: run_migrations_def sql_probe_is_admin_def sql_count_admins_def
          sql_first_user_id_def sql_set_is_admin_def sqlite_int_def)
  next
    case False
    then have db1: "db1 = db\<lparr>has_is_admin := True, users := us\<rparr>" by (simp add: db1_def)
    have us: "us = map (\<lambda>u. u\<lparr>u_is_admin := 0\<rparr>) (users db)" using False by (simp add: us_def)
    show ?thesis
      using False assms(1,2) u rng
      by (simp add: run_migrations_def sql_probe_is_admin_def sql_add_is_admin_def
          sql_count_admins_def sql_first_user_id_def sql_set_is_admin_def sqlite_int_def db1 us)
  qed
  show "fst (run_migrations db) = Inr ()" using run by simp
  show "admin_count (snd (run_migrations db)) = 1" using run one by (simp add: admin_count_def)
  show "has_users (snd (run_migrations db)) \<and> has_is_admin (snd (run_migrations db))
         \<and> \<not> locked (snd (run_migrations db))"
    using run assms(1,2) by (simp add: db1_def)
qed

lemma run_migrations_noop:
  assumes "has_users db" and "has_is_admin db" and "admin_count db \<noteq> 0"
  shows "run_migrations db = (Inr (), db)"
  using assms
  by (simp add: run_migrations_def sql_probe_is_admin_def sql_count_admins_def admin_count_def)

lemma create_tables_after:
  assumes "\<not> locked db"
  shows "\<exists>db5. (case sql_create_user_progress db of
                  Inl e \<Rightarrow> (Inl e, db)
                | Inr db3 \<Rightarrow>
                    (case sql_create_user_events db3 of
                       Inl e \<Rightarrow> (Inl e, db3)
                     | Inr db4 \<Rightarrow>
                         (case sql_create_certificates db4 of
                            Inl e \<Rightarrow> (Inl e, db4)
                          | Inr db5 \<Rightarrow> (Inr (), db5)))) = (Inr (), db5)
          \<and> users db5 = users db \<and> has_users db5 = has_users db
          \<and> has_is_admin db5 = has_is_admin db \<and> locked db5 = locked db
          \<and> has_user_progress db5 \<and> has_user_events db5 \<and> has_certificates db5"
  using assms
  by (simp add: sql_create_user_progress_def sql_create_user_events_def
      sql_create_certificates_def)

lemma create_tables_noop:
  assumes "has_user_progress db" and "has_user_events db" and "has_certificates db"
  shows "(case sql_create_user_progress db of
                  Inl e \<Rightarrow> (Inl e, db)
                | Inr db3 \<Rightarrow>
                    (case sql_create_user_events db3 of
                       Inl e \<Rightarrow> (Inl e, db3)
                     | Inr db4 \<Rightarrow>
                         (case sql_create_certificates db4 of
                            Inl e \<Rightarrow> (Inl e, db4)
                          | Inr db5 \<Rightarrow> (Inr (), db5)))) = (Inr (), db)"
  using assms
  by (simp add: sql_create_user_progress_def sql_create_user_events_def
      sql_create_certificates_def)

subsection \<open>Every method keeps \<open>store_inv\<close>\<close>

lemma store_inv_cong:
  assumes "has_users a = has_users b" and "has_certificates a = has_certificates b"
    and "users a = users b" and "certificates a = certificates b"
    and "seq_users a = seq_users b" and "user_progress a = user_progress b"
  shows "store_inv a = store_inv b"
  using assms by (simp add: store_inv_def)

lemma store_inv_users_map:
  assumes "store_inv db" and "\<And>u. u_id (f u) = u_id u" and "\<And>u. u_username (f u) = u_username u"
  shows "store_inv (db\<lparr>users := map f (users db)\<rparr>)"
  using assms by (simp add: store_inv_def comp_def list_all_iff)

lemma store_inv_progress_map:
  assumes "store_inv db" and "\<And>p. p_user_id (g p) = p_user_id p"
  shows "store_inv (db\<lparr>user_progress := map g (user_progress db)\<rparr>)"
  using assms by (simp add: store_inv_def comp_def list_all_iff)

lemma store_inv_certificates_map:
  assumes "store_inv db" and "\<And>c. c_id (h c) = c_id c"
    and "\<And>c. c_certificate_code (h c) = c_certificate_code c"
  shows "store_inv (db\<lparr>certificates := map h (certificates db)\<rparr>)"
  using assms by (simp add: store_inv_def comp_def)

lemma log_event_frame:
  "has_users (snd (log_event now db user_id ty det)) = has_users db"
  "has_is_admin (snd (log_event now db user_id ty det)) = has_is_admin db"
  "has_user_progress (snd (log_event now db user_id ty det)) = has_user_progress db"
  "has_user_events (snd (log_event now db user_id ty det)) = has_user_events db"
  "has_certificates (snd (log_event now db user_id ty det)) = has_certificates db"
  "locked (snd (log_event now db user_id ty det)) = locked db"
  "users (snd (log_event now db user_id ty det)) = users db"
  "user_progress (snd (log_event now db user_id ty det)) = user_progress db"
  "certificates (snd (log_event now db user_id ty det)) = certificates db"
  "seq_users (snd (log_event now db user_id ty det)) = seq_users db"
  "seq_certificates (snd (log_event now db user_id ty det)) = seq_certificates db"
  by (auto simp: log_event_def sql_insert_event_def split: sum.splits if_splits)

lemma store_inv_log_event:
  "store_inv (snd (log_event now db user_id ty det)) = store_inv db"
  by (rule store_inv_cong) (simp_all add: log_event_frame)

lemma store_inv_update_last_login:
  "store_inv db \<Longrightarrow> store_inv (snd (update_last_login now db user_id))"
  by (auto simp: update_last_login_def sql_update_last_login_def
      intro!: store_inv_users_map split: sum.splits if_splits)

lemma store_inv_update_user_profile:
  "store_inv db \<Longrightarrow> store_inv (snd (update_user_profile db user_id profile_data))"
  by (auto simp: update_user_profile_def sql_update_profile_def
      intro!: store_inv_users_map split: sum.splits if_splits)

lemma store_inv_set_admin_status:
  "store_inv db \<Longrightarrow> store_inv (snd (set_admin_status db user_id is_admin))"
  by (auto simp: set_admin_status_def sql_set_is_admin_def
      intro!: store_inv_users_map split: sum.splits if_splits)

lemma store_inv_reset_user_password:
  "store_inv db \<Longrightarrow> store_inv (snd (reset_user_password now db user_id new_password_hash))"
  by (auto simp: reset_user_password_def sql_update_password_def store_inv_log_event
      intro!: store_inv_users_map split: sum.splits if_splits prod.splits
      dest!: arg_cong[where f=snd])

lemma store_inv_update_user_progress:
  "store_inv db \<Longrightarrow>
   store_inv (snd (update_user_progress now db user_id points tutorials challenges emojis))"
  by (auto simp: update_user_progress_def sql_update_progress_def
      intro!: store_inv_progress_map split: sum.splits if_splits)

lemma store_inv_complete_certificate:
  "store_inv db \<Longrightarrow> store_inv (snd (complete_certificate now db certificate_code))"
  by (auto simp: complete_certificate_def sql_complete_certificate_def store_inv_log_event
      intro!: store_inv_certificates_map
      split: sum.splits option.splits if_splits prod.splits
      dest!: arg_cong[where f=snd])

lemma store_inv_create_certificate:
  assumes "store_inv db"
  shows "store_inv (snd (create_certificate now k db user_id ty))"
proof -
  let ?db1 = "snd (create_certificate now k db user_id ty)"
  consider "?db1 = db"
    | c where "create_certificate now k db user_id ty = (Inr (Some c), ?db1)"
    using create_certificate_cases by blast
  then show ?thesis
  proof cases
    case 1
    then show ?thesis using assms by simp
  next
    case 2
    note cr = create_certificate_success[OF 2]
    have fresh: "seq_certificates ?db1 \<notin> set (map c_id (certificates db))"
      using cr(5) by (rule new_rowid_fresh)
    show ?thesis
      using assms fresh cr(2,3,6,7)
      by (simp add: store_inv_def cr(4))
  qed
qed

lemma store_inv_add_user:
  assumes "store_inv db"
  shows "store_inv (snd (add_user now db username pw pd adm))"
proof -
  let ?db1 = "snd (add_user now db username pw pd adm)"
  consider "?db1 = db"
    | uid where "add_user now db username pw pd adm = (Inr (Some uid), ?db1)"
    using add_user_cases by blast
  then show ?thesis
  proof cases
    case 1
    then show ?thesis using assms by simp
  next
    case 2
    note s = add_user_success[OF 2]
    have fresh: "uid \<notin> set (map u_id (users db))" using s(1) by (rule new_rowid_fresh)
    have old: "list_all (\<lambda>p. p_user_id p \<in> set (map u_id (users db))) (user_progress db)"
      using assms by (simp add: store_inv_def)
    have fk: "list_all (\<lambda>p. p_user_id p \<in> set (map u_id (users ?db1))) (user_progress ?db1)"
      apply (subst s(6))
      apply (subst s(5))
      using old apply (auto simp: list_all_iff)
      done
    show ?thesis
      unfolding store_inv_def
      using assms fresh s(2,3,4,7,8,9) fk
      by (simp add: store_inv_def s(5))
  qed
qed

lemma store_inv_sql_create_users:
  "store_inv db \<Longrightarrow> sql_create_users db = Inr db1 \<Longrightarrow> store_inv db1"
  by (auto simp: sql_create_users_def store_inv_def sqlite_int_def list_all_iff
      split: if_splits)

lemma store_inv_sql_create_user_progress:
  "store_inv db \<Longrightarrow> sql_create_user_progress db = Inr db1 \<Longrightarrow> store_inv db1"
  by (auto simp: sql_create_user_progress_def store_inv_def split: if_splits)

lemma store_inv_sql_create_user_events:
  "store_inv db \<Longrightarrow> sql_create_user_events db = Inr db1 \<Longrightarrow> store_inv db1"
  by (auto simp: sql_create_user_events_def store_inv_def split: if_splits)

lemma store_inv_sql_create_certificates:
  "store_inv db \<Longrightarrow> sql_create_certificates db = Inr db1 \<Longrightarrow> store_inv db1"
  by (auto simp: sql_create_certificates_def store_inv_def split: if_splits)

lemma store_inv_has_is_admin:
  "store_inv (db\<lparr>has_is_admin := b\<rparr>) = store_inv db"
  by (simp add: store_inv_def)

lemma store_inv_sql_add_is_admin:
  assumes "store_inv db" and "sql_add_is_admin db = Inr db1"
  shows "store_inv db1"
proof -
  have eq: "db1 = db\<lparr>has_is_admin := True,
                     users := map (\<lambda>u. u\<lparr>u_is_admin := 0\<rparr>) (users db)\<rparr>"
    using assms(2) by (simp add: sql_add_is_admin_def split: if_splits)
  have "store_inv (db\<lparr>has_is_admin := True\<rparr>)"
    using assms(1) by (simp add: store_inv_has_is_admin)
  then have "store_inv ((db\<lparr>has_is_admin := True\<rparr>)
      \<lparr>users := map (\<lambda>u. u\<lparr>u_is_admin := 0\<rparr>) (users (db\<lparr>has_is_admin := True\<rparr>))\<rparr>)"
    by (rule store_inv_users_map) simp_all
  then show ?thesis by (simp add: eq)
qed

lemma store_inv_sql_set_is_admin:
  assumes "store_inv db" and "sql_set_is_admin db v uid = Inr db1"
  shows "store_inv db1"
proof -
  have eq: "db1 = db\<lparr>users :=
      map (\<lambda>u. if u_id u = uid then u\<lparr>u_is_admin := v\<rparr> else u) (users db)\<rparr>"
    using assms(2) by (simp add: sql_set_is_admin_def split: if_splits)
  have "store_inv (db\<lparr>users :=
      map (\<lambda>u. if u_id u = uid then u\<lparr>u_is_admin := v\<rparr> else u) (users db)\<rparr>)"
    using assms(1) by (rule store_inv_users_map) simp_all
  then show ?thesis by (simp add: eq)
qed

lemma store_inv_run_migrations:
  assumes "store_inv db"
  shows "store_inv (snd (run_migrations db))"
proof -
  let ?s1 = "case sql_probe_is_admin db of
               Inr _ \<Rightarrow> Inr db
             | Inl OperationalError \<Rightarrow> sql_add_is_admin db
             | Inl e \<Rightarrow> Inl e"
  show ?thesis
  proof (cases ?s1)
    case (Inl e)
    then show ?thesis using assms by (simp add: run_migrations_def)
  next
    case s1: (Inr db1)
    have "db1 = db \<or> sql_add_is_admin db = Inr db1"
      using s1 by (simp add: sql_probe_is_admin_def split: if_splits)
    then have i1: "store_inv db1" using assms store_inv_sql_add_is_admin by blast
    show ?thesis
    proof (cases "sql_count_admins db1")
      case (Inl e)
      then show ?thesis using i1 s1 by (simp add: run_migrations_def)
    next
      case n: (Inr admin_count)
      show ?thesis
      proof (cases "admin_count = 0")
        case False
        then show ?thesis using i1 s1 n by (simp add: run_migrations_def)
      next
        case True
        show ?thesis
        proof (cases "sql_first_user_id db1")
          case (Inl e)
          then show ?thesis using i1 s1 n True by (simp add: run_migrations_def)
        next
          case f: (Inr first)
          show ?thesis
          proof (cases first)
            case None
            then show ?thesis using i1 s1 n True f by (simp add: run_migrations_def)
          next
            case (Some user_id)
            show ?thesis
            proof (cases "sql_set_is_admin db1 1 user_id")
              case (Inl e)
              then show ?thesis using i1 s1 n True f Some by (simp add: run_migrations_def)
            next
              case (Inr db2)
              then have "store_inv db2" using i1 store_inv_sql_set_is_admin by blast
              then show ?thesis using s1 n True f Some Inr by (simp add: run_migrations_def)
            qed
          qed
        qed
      qed
    qed
  qed
qed

lemma store_inv_create_rest:
  assumes "store_inv db2"
  shows "store_inv (snd (case sql_create_user_progress db2 of
                  Inl e \<Rightarrow> (Inl e, db2)
                | Inr db3 \<Rightarrow>
                    (case sql_create_user_events db3 of
                       Inl e \<Rightarrow> (Inl e, db3)
                     | Inr db4 \<Rightarrow>
                         (case sql_create_certificates db4 of
                            Inl e \<Rightarrow> (Inl e, db4)
                          | Inr db5 \<Rightarrow> (Inr (), db5)))))"
proof (cases "sql_create_user_progress db2")
  case (Inl e)
  then show ?thesis using assms by simp
next
  case p: (Inr db3)
  have i3: "store_inv db3" using assms p by (rule store_inv_sql_create_user_progress)
  show ?thesis
  proof (cases "sql_create_user_events db3")
    case (Inl e)
    then show ?thesis using i3 p by simp
  next
    case e: (Inr db4)
    have i4: "store_inv db4" using i3 e by (rule store_inv_sql_create_user_events)
    show ?thesis
    proof (cases "sql_create_certificates db4")
      case (Inl e')
      then show ?thesis using i4 p e by simp
    next
      case c: (Inr db5)
      have "store_inv db5" using i4 c by (rule store_inv_sql_create_certificates)
      then show ?thesis using p e c by simp
    qed
  qed
qed

lemma store_inv_initialize_database:
  assumes "store_inv db"
  shows "store_inv (snd (initialize_database db))"
proof (cases "sql_create_users db")
  case (Inl e)
  then show ?thesis using assms by (simp add: initialize_database_def)
next
  case (Inr db1)
  have i1: "store_inv db1" using assms Inr by (rule store_inv_sql_create_users)
  define db2 where "db2 = snd (run_migrations db1)"
  have i2: "store_inv db2" unfolding db2_def using i1 by (rule store_inv_run_migrations)
  obtain r where rm: "run_migrations db1 = (r, db2)"
    by (cases "run_migrations db1") (simp add: db2_def)
  show ?thesis
  proof (cases r)
    case (Inl e)
    then show ?thesis using i2 by (simp add: initialize_database_def Inr rm)
  next
    case r: (Inr u)
    show ?thesis
      using store_inv_create_rest[OF i2]
      by (simp add: initialize_database_def Inr rm r)
  qed
qed

lemma store_inv_step:
  assumes "step db db'" and "store_inv db"
  shows "store_inv db'"
  using assms
  by (cases rule: step.cases)
     (simp_all add: store_inv_initialize_database store_inv_add_user store_inv_update_last_login
        store_inv_update_user_progress store_inv_log_event store_inv_create_certificate
        store_inv_complete_certificate store_inv_update_user_profile store_inv_set_admin_status
        store_inv_reset_user_password)

lemma store_inv_steps:
  assumes "step\<^sup>*\<^sup>* db db'" and "store_inv db"
  shows "store_inv db'"
  using assms by (induction rule: rtranclp_induct) (auto intro: store_inv_step)

lemma store_inv_empty_file: "store_inv empty_file"
  by (simp add: store_inv_def empty_file_def sqlite_int_def)

lemma store_inv_reachable: "step\<^sup>*\<^sup>* empty_file db \<Longrightarrow> store_inv db"
  using store_inv_steps store_inv_empty_file by blast

subsection \<open>Every method keeps \<open>ready\<close>\<close>

lemma run_migrations_flags:
  "has_users (snd (run_migrations db)) = has_users db"
  "has_user_progress (snd (run_migrations db)) = has_user_progress db"
  "has_user_events (snd (run_migrations db)) = has_user_events db"
  "has_certificates (snd (run_migrations db)) = has_certificates db"
  "locked (snd (run_migrations db)) = locked db"
  "has_is_admin db \<Longrightarrow> has_is_admin (snd (run_migrations db))"
  by (simp_all add: run_migrations_def sql_probe_is_admin_def sql_add_is_admin_def
      sql_count_admins_def sql_first_user_id_def sql_set_is_admin_def split: list.splits)

lemma ready_initialize_database:
  assumes "ready db"
  shows "ready (snd (initialize_database db))"
proof -
  define db2 where "db2 = snd (run_migrations db)"
  obtain r where rm: "run_migrations db = (r, db2)"
    by (cases "run_migrations db") (simp add: db2_def)
  have r2: "ready db2"
    using assms run_migrations_flags[of db] by (simp add: ready_def db2_def)
  show ?thesis
  proof (cases r)
    case (Inl e)
    then show ?thesis
      using assms r2 by (simp add: initialize_database_def sql_create_users_def ready_def rm)
  next
    case (Inr u)
    have "has_user_progress db2" "has_user_events db2" "has_certificates db2"
      using r2 by (simp_all add: ready_def)
    then show ?thesis
      using assms r2 create_tables_noop[of db2]
      by (simp add: initialize_database_def sql_create_users_def ready_def rm Inr)
  qed
qed

lemma ready_add_user:
  assumes "ready db"
  shows "ready (snd (add_user now db username pw pd adm))"
  using add_user_cases[of now db username pw pd adm] assms add_user_success(9)
  unfolding ready_def by metis

lemma ready_create_certificate:
  assumes "ready db"
  shows "ready (snd (create_certificate now k db user_id ty))"
  using create_certificate_cases[of now k db user_id ty] assms create_certificate_success(7)
  unfolding ready_def by metis

lemma ready_log_event:
  "ready (snd (log_event now db user_id ty det)) = ready db"
  by (simp add: ready_def log_event_frame)

lemma ready_frame:
  "ready (db\<lparr>users := us\<rparr>) = ready db"
  "ready (db\<lparr>user_progress := ps\<rparr>) = ready db"
  "ready (db\<lparr>user_events := es\<rparr>) = ready db"
  "ready (db\<lparr>certificates := cs\<rparr>) = ready db"
  by (simp_all add: ready_def)

lemma ready_complete_certificate:
  assumes "ready db"
  shows "ready (snd (complete_certificate now db k))"
  using assms
  by (auto simp: complete_certificate_def sql_complete_certificate_def
      sql_select_certificate_owner_def ready_log_event ready_frame
      split: sum.splits option.splits prod.splits dest!: arg_cong[where f=snd])

lemma ready_step:
  assumes "step db db'" and "ready db"
  shows "ready db'"
  using assms(1)
proof (cases rule: step.cases)
  case step_initialize_database
  then show ?thesis using assms(2) by (simp add: ready_initialize_database)
next
  case (step_add_user now username password_hash profile_data is_admin)
  then show ?thesis using assms(2) by (simp add: ready_add_user)
next
  case (step_update_last_login now user_id)
  then show ?thesis
    using assms(2) by (simp add: update_last_login_def sql_update_last_login_def ready_frame)
next
  case (step_update_user_progress now user_id points tutorials challenges emojis)
  then show ?thesis
    using assms(2) by (simp add: update_user_progress_def sql_update_progress_def ready_frame)
next
  case (step_log_event now user_id event_type event_details)
  then show ?thesis using assms(2) by (simp add: ready_log_event)
next
  case (step_create_certificate now certificate_code user_id certificate_type)
  then show ?thesis using assms(2) by (simp add: ready_create_certificate)
next
  case (step_complete_certificate now certificate_code)
  then show ?thesis using assms(2) by (simp add: ready_complete_certificate)
next
  case (step_update_user_profile user_id profile)
  then show ?thesis
    using assms(2) by (simp add: update_user_profile_def sql_update_profile_def ready_frame)
next
  case (step_set_admin_status user_id is_admin)
  then show ?thesis
    using assms(2) by (simp add: set_admin_status_def sql_set_is_admin_def ready_frame)
next
  case (step_reset_user_password now user_id new_password_hash)
  then show ?thesis
    using assms(2)
    by (auto simp: reset_user_password_def sql_update_password_def ready_log_event ready_frame
        split: sum.splits prod.splits dest!: arg_cong[where f=snd])
qed

lemma ready_db_init: "ready db_init"
  by code_simp

text \<open>Both hold in every store reached from a new file by calls of the methods.\<close>

lemma reachable_ready_inv:
  assumes "step\<^sup>*\<^sup>* db_init db"
  shows "ready db \<and> store_inv db"
proof -
  have "ready db"
    using assms by (induction rule: rtranclp_induct) (auto intro: ready_db_init ready_step)
  moreover have "step\<^sup>*\<^sup>* empty_file db_init"
    unfolding db_init_def by (rule r_into_rtranclp) (rule step_initialize_database)
  then have "step\<^sup>*\<^sup>* empty_file db" using assms by (rule rtranclp_trans)
  then have "store_inv db" by (rule store_inv_reachable)
  ultimately show ?thesis by blast
qed

subsection \<open>Integers that SQLite cannot hold\<close>

lemma update_user_progress_out_of_range:
  "\<not> sqlite_int points \<Longrightarrow>
   update_user_progress now db user_id points tutorials challenges emojis = (Inr False, db)"
  by (simp add: update_user_progress_def sql_update_progress_def)

lemma id_keyed_updates_out_of_range:
  assumes "\<not> sqlite_int user_id"
  shows "update_user_profile db user_id profile_data = (Inr False, db)"
    and "set_admin_status db user_id is_admin = (Inr False, db)"
    and "reset_user_password now db user_id new_password_hash = (Inr False, db)"
  using assms
  by (simp_all add: update_user_profile_def sql_update_profile_def set_admin_status_def
      sql_set_is_admin_def reset_user_password_def sql_update_password_def)

subsection \<open>Certificates along a run\<close>

lemma completed_same:
  "certificates db' = certificates db \<Longrightarrow> completed db r \<Longrightarrow> completed db' r"
  by (simp add: completed_def)

lemma completed_append:
  "certificates db' = certificates db @ [n] \<Longrightarrow> completed db r \<Longrightarrow> completed db' r"
  by (auto simp: completed_def)

lemma completed_map:
  assumes "certificates db'
           = map (\<lambda>c. if c_certificate_code c = k then c\<lparr>c_completed_date := Some t\<rparr> else c)
               (certificates db)"
    and "completed db r"
  shows "completed db' r"
proof -
  let ?f = "\<lambda>c. if c_certificate_code c = k then c\<lparr>c_completed_date := Some t\<rparr> else c"
  obtain r' where r': "r' \<in> set (certificates db)" "c_id r' = c_id r"
      "c_user_id r' = c_user_id r" "c_certificate_type r' = c_certificate_type r"
      "c_issue_date r' = c_issue_date r" "c_certificate_code r' = c_certificate_code r"
      "c_completed_date r' \<noteq> None"
    using assms(2) by (auto simp: completed_def)
  have "?f r' \<in> set (certificates db')" using r'(1) by (simp add: assms(1))
  moreover have "c_id (?f r') = c_id r \<and> c_user_id (?f r') = c_user_id r
      \<and> c_certificate_type (?f r') = c_certificate_type r \<and> c_issue_date (?f r') = c_issue_date r
      \<and> c_certificate_code (?f r') = c_certificate_code r \<and> c_completed_date (?f r') \<noteq> None"
    using r' by simp
  ultimately show ?thesis unfolding completed_def by blast
qed

lemma certificates_add_user:
  "certificates (snd (add_user now db username pw pd adm)) = certificates db"
  using add_user_cases[of now db username pw pd adm] add_user_success(8) by metis

lemma certificates_run_migrations:
  "certificates (snd (run_migrations db)) = certificates db"
  by (simp add: run_migrations_def sql_probe_is_admin_def sql_add_is_admin_def
      sql_count_admins_def sql_first_user_id_def sql_set_is_admin_def
      split: list.splits)

lemma certificates_initialize_database:
  assumes "has_certificates db \<or> certificates db = []"
  shows "certificates (snd (initialize_database db)) = certificates db"
proof (cases "sql_create_users db")
  case (Inl e)
  then show ?thesis by (simp add: initialize_database_def)
next
  case (Inr db1)
  then have c1: "certificates db1 = certificates db" "has_certificates db1 = has_certificates db"
    by (auto simp: sql_create_users_def split: if_splits)
  define db2 where "db2 = snd (run_migrations db1)"
  obtain r where rm: "run_migrations db1 = (r, db2)"
    by (cases "run_migrations db1") (simp add: db2_def)
  have c2: "certificates db2 = certificates db"
    using c1 by (simp add: db2_def certificates_run_migrations)
  have h2: "has_certificates db2 = has_certificates db"
    using c1 by (simp add: db2_def run_migrations_def sql_probe_is_admin_def sql_add_is_admin_def
      sql_count_admins_def sql_first_user_id_def sql_set_is_admin_def split: list.splits)
  show ?thesis
  proof (cases r)
    case (Inl e)
    then show ?thesis using c2 by (simp add: initialize_database_def Inr rm)
  next
    case r: (Inr u)
    show ?thesis
      using c2 h2 assms
      by (auto simp: initialize_database_def Inr rm r sql_create_user_progress_def
          sql_create_user_events_def sql_create_certificates_def)
  qed
qed

lemma certificates_step:
  assumes "step db db'" and "store_inv db"
  shows "certificates db' = certificates db
       \<or> (\<exists>n. certificates db' = certificates db @ [n])
       \<or> (\<exists>k t. certificates db' =
             map (\<lambda>c. if c_certificate_code c = k then c\<lparr>c_completed_date := Some t\<rparr> else c)
               (certificates db))"
  using assms(1)
proof (cases rule: step.cases)
  case step_initialize_database
  then show ?thesis
    using assms(2) by (simp add: certificates_initialize_database store_inv_def)
next
  case (step_add_user now username password_hash profile_data is_admin)
  then show ?thesis by (simp add: certificates_add_user)
next
  case (step_update_last_login now user_id)
  then show ?thesis
    by (simp add: update_last_login_def sql_update_last_login_def)
next
  case (step_update_user_progress now user_id points tutorials challenges emojis)
  then show ?thesis
    by (simp add: update_user_progress_def sql_update_progress_def)
next
  case (step_log_event now user_id event_type event_details)
  then show ?thesis by (simp add: log_event_frame)
next
  case (step_create_certificate now certificate_code user_id certificate_type)
  then show ?thesis
    using create_certificate_cases[of now certificate_code db user_id certificate_type]
      create_certificate_success(4)
    by metis
next
  case (step_complete_certificate now certificate_code)
  have "certificates (snd (complete_certificate now db certificate_code)) = certificates db
      \<or> certificates (snd (complete_certificate now db certificate_code))
          = map (\<lambda>c. if c_certificate_code c = certificate_code
                      then c\<lparr>c_completed_date := Some now\<rparr> else c) (certificates db)"
    by (auto simp: complete_certificate_def sql_complete_certificate_def log_event_frame
        split: sum.splits option.splits prod.splits if_splits dest!: arg_cong[where f=snd])
  then show ?thesis using step_complete_certificate by blast
next
  case (step_update_user_profile user_id profile)
  then show ?thesis
    by (simp add: update_user_profile_def sql_update_profile_def)
next
  case (step_set_admin_status user_id is_admin)
  then show ?thesis
    by (simp add: set_admin_status_def sql_set_is_admin_def)
next
  case (step_reset_user_password now user_id new_password_hash)
  then show ?thesis
    by (auto simp: reset_user_password_def sql_update_password_def log_event_frame
        split: sum.splits prod.splits if_splits dest!: arg_cong[where f=snd])
qed

lemma completed_step:
  assumes "step db db'" and "store_inv db" and "completed db r"
  shows "completed db' r"
  using certificates_step[OF assms(1,2)] assms(3)
  by (auto intro: completed_same completed_append completed_map)

lemma completed_steps:
  assumes "step\<^sup>*\<^sup>* db db'" and "store_inv db" and "completed db r"
  shows "completed db' r"
  using assms
proof (induction rule: rtranclp_induct)
  case base
  then show ?case by simp
next
  case (step y z)
  then show ?case using store_inv_steps completed_step by blast
qed

lemma completed_not_issued:
  assumes "store_inv db" and "completed db r"
  shows "\<not> issued db (c_id r)"
proof
  assume "issued db (c_id r)"
  then obtain a where a: "a \<in> set (certificates db)" "c_id a = c_id r" "c_completed_date a = None"
    by (auto simp: issued_def)
  obtain b where b: "b \<in> set (certificates db)" "c_id b = c_id r" "c_completed_date b \<noteq> None"
    using assms(2) by (auto simp: completed_def)
  have "distinct (map c_id (certificates db))" using assms(1) by (simp add: store_inv_def)
  then have "a = b" using a(1,2) b(1,2) by (metis distinct_map inj_onD)
  then show False using a(3) b(3) by simp
qed

subsection \<open>The legacy import is a run of method calls\<close>

lemma migrate_users_steps:
  "step\<^sup>*\<^sup>* db (snd (migrate_users now db users_data progress_file))"
proof (induction users_data arbitrary: db)
  case Nil
  show ?case by simp
next
  case (Cons entry rest)
  obtain username password where entry: "entry = (username, password)" by (cases entry)
  define db1 where "db1 = snd (add_user now db username password None False)"
  have s1: "step db db1" unfolding db1_def by (rule step_add_user)
  obtain r where r: "add_user now db username password None False = (r, db1)"
    by (cases "add_user now db username password None False") (simp add: db1_def)
  have rest1: "step\<^sup>*\<^sup>* db (snd (migrate_users now db1 rest progress_file))"
    using s1 Cons.IH[of db1] by (rule converse_rtranclp_into_rtranclp)
  have upd: "\<And>uid pd. step\<^sup>*\<^sup>* db
      (snd (migrate_users now
         (snd (update_user_progress now db1 uid (pg_points pd) (pg_completed_tutorials pd)
                 (pg_completed_challenges pd) (pg_emoji_collection pd))) rest progress_file))"
  proof -
    fix uid pd
    let ?db2 = "snd (update_user_progress now db1 uid (pg_points pd) (pg_completed_tutorials pd)
                 (pg_completed_challenges pd) (pg_emoji_collection pd))"
    have "step db1 ?db2" by (rule step_update_user_progress)
    then have "step\<^sup>*\<^sup>* db ?db2" using s1 by (meson r_into_rtranclp rtranclp.rtrancl_into_rtrancl)
    then show "step\<^sup>*\<^sup>* db (snd (migrate_users now ?db2 rest progress_file))"
      using Cons.IH[of ?db2] by (rule rtranclp_trans)
  qed
  have upd_fail: "\<And>uid pd. step\<^sup>*\<^sup>* db
         (snd (update_user_progress now db1 uid (pg_points pd) (pg_completed_tutorials pd)
                 (pg_completed_challenges pd) (pg_emoji_collection pd)))"
    using s1 step_update_user_progress by (meson r_into_rtranclp rtranclp.rtrancl_into_rtrancl)
  have one: "step\<^sup>*\<^sup>* db db1" using s1 by (rule r_into_rtranclp)
  show ?case
    using rest1 upd upd_fail one
    by (auto simp: entry r split: sum.splits option.splits prod.splits dest!: arg_cong[where f=snd])
qed

lemma migrate_data_from_json_steps:
  "step\<^sup>*\<^sup>* db (snd (migrate_data_from_json now db users_json progress_file))"
  by (cases users_json) (simp_all add: migrate_data_from_json_def migrate_users_steps)

section \<open>The claims\<close>

subsection \<open>C1: progress written is progress read\<close>




subsection \<open>C2: a duplicate user name\<close>

text \<open>
  C2. On a ready store whose \<^verbatim>\<open>users\<close> table has a row id left, \<^verbatim>\<open>add_user\<close> with a
  user name that is already there returns \<^verbatim>\<open>None\<close> (the \<^verbatim>\<open>IntegrityError\<close> of the
  \<^verbatim>\<open>UNIQUE\<close> column, caught), leaves the store as it was, and the store still has
  exactly one row with that user name.
\<close>

theorem add_user_duplicate:
  assumes "ready db" and "store_inv db"
    and "rowid_left (seq_users db) (map u_id (users db))"
    and "username \<in> set (map u_username (users db))"
  shows "add_user now db username password_hash profile_data is_admin = (Inr None, db)
       \<and> length (filter (\<lambda>u. u_username u = username)
                   (users (snd (add_user now db username password_hash profile_data is_admin)))) = 1"
proof -
  have ret: "add_user now db username password_hash profile_data is_admin = (Inr None, db)"
    using assms(1,3,4)
    by (simp add: add_user_def sql_insert_user_def ready_def new_rowid_left sqlite_int_def)
  have "distinct (map u_username (users db))" using assms(2) by (simp add: store_inv_def)
  then have "length (filter (\<lambda>u. u_username u = username) (users db)) = 1"
    using assms(4) by (rule count_unique)
  then show ?thesis using ret by simp
qed

theorem add_user_duplicate_witness:
  "ready db_ada \<and> store_inv db_ada \<and> rowid_left (seq_users db_ada) (map u_id (users db_ada))
   \<and> ''ada'' \<in> set (map u_username (users db_ada))
   \<and> add_user 300 db_ada ''ada'' ''hash-b'' (Some [(''full_name'', ''Ada L'')]) True
       = (Inr None, db_ada)
   \<and> length (filter (\<lambda>u. u_username u = ''ada'')
        (users (snd (add_user 300 db_ada ''ada'' ''hash-b'' (Some [(''full_name'', ''Ada L'')]) True))))
       = 1"
proof -
  have h1: "ready db_ada" by code_simp
  have h2: "store_inv db_ada" by code_simp
  have h3: "rowid_left (seq_users db_ada) (map u_id (users db_ada))" by code_simp
  have h4: "''ada'' \<in> set (map u_username (users db_ada))" by code_simp
  show ?thesis
    using h1 h2 h3 h4
      add_user_duplicate[OF h1 h2 h3 h4, of 300 "''hash-b''" "Some [(''full_name'', ''Ada L'')]" True]
    by blast
qed

subsection \<open>C3: the progress of a new user\<close>

text \<open>
  C3. When \<^verbatim>\<open>add_user\<close> returns an id, the store has a user row and a progress row
  for it, and \<^verbatim>\<open>get_user_progress\<close> on that id returns 0 points and three empty
  lists.
\<close>

theorem fresh_user_progress:
  assumes "store_inv db"
    and "add_user now db username password_hash profile_data is_admin = (Inr (Some uid), db')"
  shows "uid \<in> set (map u_id (users db')) \<and> uid \<in> set (map p_user_id (user_progress db'))
       \<and> get_user_progress db' uid
           = Inr \<lparr>pg_points = 0, pg_completed_tutorials = [], pg_completed_challenges = [],
                  pg_emoji_collection = []\<rparr>"
proof -
  note s = add_user_success[OF assms(2)]
  have fresh: "uid \<notin> set (map u_id (users db))" using s(1) by (rule new_rowid_fresh)
  have "\<forall>p \<in> set (user_progress db). p_user_id p \<in> set (map u_id (users db))"
    using assms(1) by (simp add: store_inv_def list_all_iff)
  then have old: "find (\<lambda>p. p_user_id p = uid) (user_progress db) = None"
    using fresh by (auto simp: find_None_iff)
  have found: "find (\<lambda>p. p_user_id p = uid) (user_progress db')
      = Some \<lparr>p_id = seq_user_progress db', p_user_id = uid, p_points = 0,
             p_completed_tutorials = ''[]'', p_completed_challenges = ''[]'',
             p_emoji_collection = ''[]'', p_last_updated = now\<rparr>"
    by (subst s(6)) (simp add: find_append_None old)
  have "get_user_progress db' uid
           = Inr \<lparr>pg_points = 0, pg_completed_tutorials = [], pg_completed_challenges = [],
                  pg_emoji_collection = []\<rparr>"
    using s(3,4,9) found
    by (simp add: get_user_progress_def sql_select_progress_def json_loads_empty)
  moreover have "uid \<in> set (map u_id (users db'))" by (subst s(5)) simp
  moreover have "uid \<in> set (map p_user_id (user_progress db'))" by (subst s(6)) simp
  ultimately show ?thesis by blast
qed

theorem fresh_user_progress_witness:
  "store_inv db_ada
   \<and> add_user 300 db_ada ''bob'' ''hash-b'' (Some [(''full_name'', ''Bob'')]) False
       = (Inr (Some 2), snd (add_user 300 db_ada ''bob'' ''hash-b'' (Some [(''full_name'', ''Bob'')]) False))
   \<and> get_user_progress (snd (add_user 300 db_ada ''bob'' ''hash-b'' (Some [(''full_name'', ''Bob'')]) False)) 2
       = Inr \<lparr>pg_points = 0, pg_completed_tutorials = [], pg_completed_challenges = [],
              pg_emoji_collection = []\<rparr>"
proof -
  have h1: "store_inv db_ada" by code_simp
  have h2: "add_user 300 db_ada ''bob'' ''hash-b'' (Some [(''full_name'', ''Bob'')]) False
       = (Inr (Some 2), snd (add_user 300 db_ada ''bob'' ''hash-b'' (Some [(''full_name'', ''Bob'')]) False))"
    by code_simp
  show ?thesis using h1 h2 fresh_user_progress[OF h1 h2] by blast
qed

subsection \<open>C4: the first administrator\<close>

text \<open>
  C4. On a store with a \<^verbatim>\<open>users\<close> table, at least one user row and no row with
  \<^verbatim>\<open>is_admin = 1\<close> (or no such column yet), \<^verbatim>\<open>initialize_database\<close> succeeds and
  leaves exactly one administrator; run again on its result it changes nothing, so the
  count stays at one. (The methods write 0 and 1 only into \<^verbatim>\<open>is_admin\<close>, and the
  migration counts the rows with 1.)
\<close>

theorem bootstrap_admin:
  assumes "has_users db" and "\<not> locked db" and "store_inv db" and "users db \<noteq> []"
    and "admin_count db = 0 \<or> \<not> has_is_admin db"
  shows "fst (initialize_database db) = Inr ()
       \<and> admin_count (snd (initialize_database db)) = 1
       \<and> initialize_database (snd (initialize_database db))
           = (Inr (), snd (initialize_database db))"
proof -
  define dbm where "dbm = snd (run_migrations db)"
  have a5: "has_is_admin db \<longrightarrow> admin_count db = 0" using assms(5) by blast
  note m = run_migrations_bootstrap[OF assms(1-4) a5]
  have rm: "run_migrations db = (Inr (), dbm)"
    using m(1) by (simp add: dbm_def prod_eq_iff)
  have nl: "\<not> locked dbm" using m(3) by (simp add: dbm_def)
  obtain db5 where db5:
    "(case sql_create_user_progress dbm of
                  Inl e \<Rightarrow> (Inl e, dbm)
                | Inr db3 \<Rightarrow>
                    (case sql_create_user_events db3 of
                       Inl e \<Rightarrow> (Inl e, db3)
                     | Inr db4 \<Rightarrow>
                         (case sql_create_certificates db4 of
                            Inl e \<Rightarrow> (Inl e, db4)
                          | Inr db5 \<Rightarrow> (Inr (), db5)))) = (Inr (), db5)"
    "users db5 = users dbm" "has_users db5 = has_users dbm"
    "has_is_admin db5 = has_is_admin dbm" "locked db5 = locked dbm"
    "has_user_progress db5" "has_user_events db5" "has_certificates db5"
    using create_tables_after[OF nl] by blast
  have first: "initialize_database db = (Inr (), db5)"
    using assms(1) rm db5(1) by (simp add: initialize_database_def sql_create_users_def)
  have cnt: "admin_count db5 = 1"
    using m(2) db5(2) by (simp add: admin_count_def dbm_def)
  have flags: "has_users db5" "has_is_admin db5"
    using m(3) db5(3,4) by (simp_all add: dbm_def)
  have rm5: "run_migrations db5 = (Inr (), db5)"
    using flags cnt by (intro run_migrations_noop) simp_all
  have second: "initialize_database db5 = (Inr (), db5)"
    using flags(1) rm5 create_tables_noop[OF db5(6,7,8)]
    by (simp add: initialize_database_def sql_create_users_def)
  show ?thesis using first cnt second by simp
qed

theorem bootstrap_admin_witness:
  "has_users db_ada \<and> \<not> locked db_ada \<and> store_inv db_ada \<and> users db_ada \<noteq> []
   \<and> admin_count db_ada = 0
   \<and> fst (initialize_database db_ada) = Inr ()
   \<and> admin_count (snd (initialize_database db_ada)) = 1
   \<and> initialize_database (snd (initialize_database db_ada))
       = (Inr (), snd (initialize_database db_ada))"
proof -
  have h1: "has_users db_ada" by code_simp
  have h2: "\<not> locked db_ada" by code_simp
  have h3: "store_inv db_ada" by code_simp
  have h4: "users db_ada \<noteq> []" by code_simp
  have h5: "admin_count db_ada = 0" by code_simp
  have h5': "admin_count db_ada = 0 \<or> \<not> has_is_admin db_ada" using h5 by blast
  show ?thesis using h1 h2 h3 h4 h5 bootstrap_admin[OF h1 h2 h3 h4 h5'] by blast
qed

text \<open>The same on a file of the older schema, where the column is added first.\<close>

lemma bootstrap_admin_legacy:
  "fst (initialize_database (db_ada\<lparr>has_is_admin := False\<rparr>)) = Inr ()
   \<and> has_is_admin (snd (initialize_database (db_ada\<lparr>has_is_admin := False\<rparr>)))
   \<and> admin_count (snd (initialize_database (db_ada\<lparr>has_is_admin := False\<rparr>))) = 1"
  by code_simp

subsection \<open>C5: issuing, completing and verifying a certificate\<close>

text \<open>
  C5, as amended. For the id of an existing user row: the code \<^verbatim>\<open>create_certificate\<close>
  returns is verified as valid and not completed; \<^verbatim>\<open>complete_certificate\<close> on it
  returns \<^verbatim>\<open>True\<close>, after which it is verified as valid, completed, with a completion
  date. On any store, a code that no certificate row carries is verified as not valid.
\<close>

theorem certificate_issue_complete_verify:
  assumes "has_users db" and "user_id \<in> set (map u_id (users db))"
    and "create_certificate now certificate_code db user_id certificate_type = (Inr (Some c), db1)"
  shows "(\<exists>v. verify_certificate db1 c = Inr (Valid v) \<and> \<not> v_is_completed v)
       \<and> fst (complete_certificate later db1 c) = Inr True
       \<and> (\<exists>v. verify_certificate (snd (complete_certificate later db1 c)) c = Inr (Valid v)
                \<and> v_is_completed v \<and> v_completed_date v \<noteq> None)
       \<and> (\<forall>s k. has_certificates s \<and> has_users s
                  \<and> k \<notin> set (map c_certificate_code (certificates s))
                \<longrightarrow> verify_certificate s k = Inr NotValid)"
proof (intro conjI allI impI)
  note cr = create_certificate_success[OF assms(3)]
  let ?new = "\<lparr>c_id = seq_certificates db1, c_user_id = user_id,
               c_certificate_type = certificate_type, c_issue_date = now,
               c_certificate_code = c, c_completed_date = None\<rparr>"
  let ?db2 = "snd (complete_certificate later db1 c)"
  have old: "filter (\<lambda>r. c_certificate_code r = c) (certificates db) = []"
    using cr(1,2) by (auto simp: filter_empty_conv)
  have one: "filter (\<lambda>r. c_certificate_code r = c) (certificates db1) = [?new]"
    using cr(1) old by (simp add: cr(4))
  have flags: "has_certificates db1" "has_users db1" "\<not> locked db1"
    using cr(3,7) assms(1) by simp_all
  have owner: "c_user_id ?new \<in> set (map u_id (users db1))"
    using assms(2) cr(6) by simp
  show "\<exists>v. verify_certificate db1 c = Inr (Valid v) \<and> \<not> v_is_completed v"
    using join_single[OF flags(1,2) one owner] by auto
  note e = complete_certificate_effect[OF flags(1,3), of later c]
  show "fst (complete_certificate later db1 c) = Inr True" by (rule e(1))
  have one2: "filter (\<lambda>r. c_certificate_code r = c) (certificates ?db2)
      = [?new\<lparr>c_completed_date := Some later\<rparr>]"
    using one by (simp add: e(2) filter_map comp_def if_distrib[of c_certificate_code] cong: if_cong)
  have owner2: "c_user_id (?new\<lparr>c_completed_date := Some later\<rparr>) \<in> set (map u_id (users ?db2))"
    using owner by (simp add: e(3))
  have flags2: "has_certificates ?db2" "has_users ?db2" using e(4) flags(2) by simp_all
  show "\<exists>v. verify_certificate ?db2 c = Inr (Valid v)
                \<and> v_is_completed v \<and> v_completed_date v \<noteq> None"
    using join_single[OF flags2 one2 owner2] by auto
next
  fix s :: store and k
  assume "has_certificates s \<and> has_users s \<and> k \<notin> set (map c_certificate_code (certificates s))"
  then show "verify_certificate s k = Inr NotValid" by (simp add: join_unknown)
qed

theorem certificate_issue_complete_verify_witness:
  "has_users db_ada \<and> 1 \<in> set (map u_id (users db_ada))
   \<and> create_certificate 200 uuid_a db_ada 1 ''python-basics'' = (Inr (Some uuid_a), db_cert)
   \<and> (\<exists>v. verify_certificate db_cert uuid_a = Inr (Valid v) \<and> \<not> v_is_completed v)
   \<and> fst (complete_certificate 250 db_cert uuid_a) = Inr True
   \<and> (\<exists>v. verify_certificate (snd (complete_certificate 250 db_cert uuid_a)) uuid_a
              = Inr (Valid v) \<and> v_is_completed v \<and> v_completed_date v \<noteq> None)
   \<and> has_certificates db_cert \<and> has_users db_cert
   \<and> ''n0ne'' \<notin> set (map c_certificate_code (certificates db_cert))
   \<and> verify_certificate db_cert ''n0ne'' = Inr NotValid"
proof -
  have h1: "has_users db_ada" by code_simp
  have h2: "1 \<in> set (map u_id (users db_ada))" by code_simp
  have h3: "create_certificate 200 uuid_a db_ada 1 ''python-basics'' = (Inr (Some uuid_a), db_cert)"
    by code_simp
  have h4: "has_certificates db_cert \<and> has_users db_cert
      \<and> ''n0ne'' \<notin> set (map c_certificate_code (certificates db_cert))"
    by code_simp
  note t = certificate_issue_complete_verify[OF h1 h2 h3, of 250]
  have "verify_certificate db_cert ''n0ne'' = Inr NotValid" using t h4 by blast
  then show ?thesis using h1 h2 h3 h4 t by blast
qed

text \<open>
  C5 as stated, for any user id, fails: foreign keys are not enforced, so a
  certificate is created for an id without a user row, and the join of
  \<^verbatim>\<open>verify_certificate\<close> then finds no row for its code.
\<close>

theorem certificate_of_no_user_counterexample:
  "7 \<notin> set (map u_id (users db_ada))
   \<and> fst (create_certificate 200 uuid_a db_ada 7 ''python-basics'') = Inr (Some uuid_a)
   \<and> verify_certificate (snd (create_certificate 200 uuid_a db_ada 7 ''python-basics'')) uuid_a
       = Inr NotValid
   \<and> \<not> is_valid NotValid"
  by code_simp

subsection \<open>C6: the events of a user\<close>

text \<open>
  C6, as amended. For a user id and a limit within SQLite's signed 64-bit range, the
  limit not negative, \<^verbatim>\<open>get_user_events\<close> returns at most \<open>limit\<close> entries (as many
  as the user has events, if those are fewer), newest first: no entry is older than one
  after it.
\<close>

theorem get_user_events_bounded_newest_first:
  assumes "has_user_events db" and "sqlite_int user_id" and "sqlite_int limit" and "0 \<le> limit"
  shows "\<exists>events. get_user_events db user_id limit = Inr events
           \<and> int (length events) \<le> limit
           \<and> length events
               = min (nat limit) (length (filter (\<lambda>e. e_user_id e = user_id) (user_events db)))
           \<and> sorted_wrt (\<lambda>a b. ev_timestamp b \<le> ev_timestamp a) events"
proof -
  let ?rows = "filter (\<lambda>e. e_user_id e = user_id) (user_events db)"
  let ?sel = "sql_limit limit (rev (sort_key e_timestamp ?rows))"
  let ?dict = "\<lambda>r. \<lparr>ev_event_type = e_event_type r, ev_event_details = e_event_details r,
                      ev_timestamp = e_timestamp r\<rparr>"
  have res: "get_user_events db user_id limit = Inr (map ?dict ?sel)"
    using assms(1-3) by (simp add: get_user_events_def sql_select_events_def)
  have len: "int (length (map ?dict ?sel)) \<le> limit"
    using assms(4) by (simp add: sql_limit_def)
  have cnt: "length (map ?dict ?sel) = min (nat limit) (length ?rows)"
    using assms(4) by (simp add: sql_limit_def min.commute)
  have "sorted (map e_timestamp (sort_key e_timestamp ?rows))" by simp
  then have "sorted_wrt (\<lambda>a b. e_timestamp a \<le> e_timestamp b) (sort_key e_timestamp ?rows)"
    by (simp add: sorted_wrt_map)
  then have "sorted_wrt (\<lambda>a b. e_timestamp b \<le> e_timestamp a) (rev (sort_key e_timestamp ?rows))"
    by (simp add: sorted_wrt_rev)
  then have "sorted_wrt (\<lambda>a b. e_timestamp b \<le> e_timestamp a) ?sel"
    by (simp add: sql_limit_def sorted_wrt_take)
  then have "sorted_wrt (\<lambda>a b. ev_timestamp b \<le> ev_timestamp a) (map ?dict ?sel)"
    by (simp add: sorted_wrt_map)
  then show ?thesis using res len cnt by blast
qed

theorem get_user_events_bounded_newest_first_witness:
  "has_user_events db_done \<and> sqlite_int 1 \<and> (0::int) \<le> 1
   \<and> (\<exists>events. get_user_events db_done 1 1 = Inr events
           \<and> int (length events) \<le> 1
           \<and> length events
               = min (nat 1) (length (filter (\<lambda>e. e_user_id e = 1) (user_events db_done)))
           \<and> sorted_wrt (\<lambda>a b. ev_timestamp b \<le> ev_timestamp a) events)"
proof -
  have h1: "has_user_events db_done" by code_simp
  have h2: "sqlite_int 1" by (simp add: sqlite_int_def)
  have h3: "(0::int) \<le> 1" by simp
  show ?thesis
    using h1 h2 h3 get_user_events_bounded_newest_first[OF h1 h2 h2 h3] by blast
qed

text \<open>
  C6 as stated fails in each of its parts. SQLite reads a negative \<^verbatim>\<open>LIMIT\<close> as no
  limit: both events of the user are returned for the limit \<open>-1\<close>. The order is not
  strict: \<^verbatim>\<open>CURRENT_TIMESTAMP\<close> counts seconds, and the two events carry the same one.
  And a limit of \<open>2 ^ 63\<close> cannot be bound: the \<^verbatim>\<open>OverflowError\<close> leaves the method.
\<close>

theorem get_user_events_counterexample:
  "map_sum id (map ev_timestamp) (get_user_events db_done 1 (- 1)) = Inr [200, 200]
   \<and> \<not> int (length [200 :: nat, 200]) \<le> - 1
   \<and> map_sum id (map ev_timestamp) (get_user_events db_done 1 50) = Inr [200, 200]
   \<and> \<not> sorted_wrt (\<lambda>a b. b < a) [200 :: nat, 200]
   \<and> get_user_events db_done 1 (2 ^ 63) = Inl OverflowError"
  by code_simp

subsection \<open>C7: completing a certificate that is not there\<close>

text \<open>
  C7. On a ready store, \<^verbatim>\<open>complete_certificate\<close> with a code that no certificate row
  carries returns \<^verbatim>\<open>True\<close> and leaves the store, and so every certificate row, as it
  was.
\<close>

theorem complete_unknown_certificate:
  assumes "ready db"
    and "certificate_code \<notin> set (map c_certificate_code (certificates db))"
  shows "complete_certificate now db certificate_code = (Inr True, db)"
proof -
  have same: "map (\<lambda>c. if c_certificate_code c = certificate_code
                        then c\<lparr>c_completed_date := Some now\<rparr> else c) (certificates db)
              = certificates db"
    using assms(2) by (intro map_if_untouched) auto
  have none: "find (\<lambda>c. c_certificate_code c = certificate_code) (certificates db) = None"
    using assms(2) by (auto simp: find_None_iff)
  show ?thesis
    using assms(1)
    by (simp add: complete_certificate_def sql_complete_certificate_def ready_def same
        sql_select_certificate_owner_def none)
qed

theorem complete_unknown_certificate_witness:
  "ready db_cert \<and> ''n0ne'' \<notin> set (map c_certificate_code (certificates db_cert))
   \<and> certificates db_cert \<noteq> []
   \<and> complete_certificate 300 db_cert ''n0ne'' = (Inr True, db_cert)"
proof -
  have r: "ready db_cert" by code_simp
  have n: "''n0ne'' \<notin> set (map c_certificate_code (certificates db_cert))" by code_simp
  have e: "certificates db_cert \<noteq> []" by code_simp
  show ?thesis using r n e complete_unknown_certificate[OF r n, of 300] by simp
qed

subsection \<open>C8: a failed event insert stays inside \<^verbatim>\<open>log_event\<close>\<close>



subsection \<open>C9: a certificate is completed once and for good\<close>

text \<open>
  C9. \<^verbatim>\<open>create_certificate\<close> appends its row with a null \<^verbatim>\<open>completed_date\<close>. Along any
  sequence of calls of the writing methods, a certificate that is completed stays in the
  store and stays completed, and no row of its id is ever in the issued state again: the
  step from issued to completed is taken at most once.
\<close>

theorem certificate_completed_for_good:
  "(create_certificate now certificate_code db user_id certificate_type = (Inr (Some c), db1) \<longrightarrow>
      (\<exists>r. certificates db1 = certificates db @ [r] \<and> c_certificate_code r = c
           \<and> c_completed_date r = None))
   \<and> (store_inv s \<and> step\<^sup>*\<^sup>* s s' \<and> completed s r \<longrightarrow>
        completed s' r \<and> \<not> issued s' (c_id r))"
proof (intro conjI impI)
  assume cr: "create_certificate now certificate_code db user_id certificate_type = (Inr (Some c), db1)"
  show "\<exists>r. certificates db1 = certificates db @ [r] \<and> c_certificate_code r = c
           \<and> c_completed_date r = None"
    using create_certificate_success(1,4)[OF cr] by simp
next
  assume h: "store_inv s \<and> step\<^sup>*\<^sup>* s s' \<and> completed s r"
  then show c: "completed s' r" using completed_steps by blast
  have "store_inv s'" using h store_inv_steps by blast
  then show "\<not> issued s' (c_id r)" using c by (rule completed_not_issued)
qed

theorem certificate_completed_for_good_witness:
  "create_certificate 200 uuid_a db_ada 1 ''python-basics'' = (Inr (Some uuid_a), db_cert)
   \<and> (\<exists>r. certificates db_cert = certificates db_ada @ [r] \<and> c_certificate_code r = uuid_a
          \<and> c_completed_date r = None)
   \<and> store_inv db_done
   \<and> step\<^sup>*\<^sup>* db_done (snd (complete_certificate 500 db_done uuid_a))
   \<and> completed db_done row_done
   \<and> completed (snd (complete_certificate 500 db_done uuid_a)) row_done
   \<and> \<not> issued (snd (complete_certificate 500 db_done uuid_a)) (c_id row_done)"
proof -
  have h1: "create_certificate 200 uuid_a db_ada 1 ''python-basics'' = (Inr (Some uuid_a), db_cert)"
    by code_simp
  have h2: "store_inv db_done" by code_simp
  have h3: "step\<^sup>*\<^sup>* db_done (snd (complete_certificate 500 db_done uuid_a))"
    by (rule r_into_rtranclp) (rule step_complete_certificate)
  have h4: "completed db_done row_done" by code_simp
  note t = certificate_completed_for_good[where now = 200 and certificate_code = uuid_a
      and db = db_ada and user_id = 1 and certificate_type = "''python-basics''"
      and c = uuid_a and ?db1.0 = db_cert and s = db_done
      and s' = "snd (complete_certificate 500 db_done uuid_a)" and r = row_done]
  show ?thesis using h1 h2 h3 h4 t by blast
qed

text \<open>What a second \<^verbatim>\<open>complete_certificate\<close> does change is the date itself.\<close>

lemma completion_date_refreshed:
  "map c_completed_date (certificates db_done) = [Some 200]
   \<and> complete_certificate 500 db_done uuid_a
       = (Inr True, snd (complete_certificate 500 db_done uuid_a))
   \<and> map c_completed_date (certificates (snd (complete_certificate 500 db_done uuid_a)))
       = [Some 500]"
  by code_simp

subsection \<open>C10: updates by id do not tell whether the user exists\<close>

text \<open>
  C10, as amended. On a ready store, for every user id within SQLite's signed 64-bit
  range, \<^verbatim>\<open>update_user_profile\<close>, \<^verbatim>\<open>set_admin_status\<close> and \<^verbatim>\<open>reset_user_password\<close>
  return \<^verbatim>\<open>True\<close>; when no user row has that id they do so with the \<^verbatim>\<open>users\<close> table
  unchanged.
\<close>

theorem id_keyed_updates_return_true:
  assumes "ready db" and "sqlite_int user_id"
  shows "fst (update_user_profile db user_id profile_data) = Inr True
       \<and> fst (set_admin_status db user_id is_admin) = Inr True
       \<and> fst (reset_user_password now db user_id new_password_hash) = Inr True
       \<and> (user_id \<notin> set (map u_id (users db)) \<longrightarrow>
            users (snd (update_user_profile db user_id profile_data)) = users db
          \<and> users (snd (set_admin_status db user_id is_admin)) = users db
          \<and> users (snd (reset_user_password now db user_id new_password_hash)) = users db)"
proof -
  have untouched: "\<And>f. user_id \<notin> set (map u_id (users db)) \<Longrightarrow>
      map (\<lambda>u. if u_id u = user_id then f u else u) (users db) = users db"
    by (intro map_if_untouched) auto
  have p: "fst (update_user_profile db user_id profile_data) = Inr True"
    using assms by (simp add: update_user_profile_def sql_update_profile_def ready_def)
  have a: "fst (set_admin_status db user_id is_admin) = Inr True"
    using assms by (simp add: set_admin_status_def sql_set_is_admin_def ready_def sqlite_int_def)
  have r: "fst (reset_user_password now db user_id new_password_hash) = Inr True"
    using assms
    by (simp add: reset_user_password_def sql_update_password_def ready_def log_event_def
        split: sum.splits)
  have pu: "user_id \<notin> set (map u_id (users db)) \<Longrightarrow>
      users (snd (update_user_profile db user_id profile_data)) = users db"
    using assms untouched
    by (simp add: update_user_profile_def sql_update_profile_def ready_def)
  have au: "user_id \<notin> set (map u_id (users db)) \<Longrightarrow>
      users (snd (set_admin_status db user_id is_admin)) = users db"
    using assms untouched
    by (simp add: set_admin_status_def sql_set_is_admin_def ready_def sqlite_int_def)
  have ru: "user_id \<notin> set (map u_id (users db)) \<Longrightarrow>
      users (snd (reset_user_password now db user_id new_password_hash)) = users db"
    using assms untouched
    by (simp add: reset_user_password_def sql_update_password_def ready_def log_event_def
        sql_insert_event_def split: sum.splits)
  show ?thesis using p a r pu au ru by blast
qed

theorem id_keyed_updates_return_true_witness:
  "ready db_ada \<and> sqlite_int 7 \<and> 7 \<notin> set (map u_id (users db_ada))
   \<and> fst (update_user_profile db_ada 7 [(''school'', ''Hill'')]) = Inr True
   \<and> fst (set_admin_status db_ada 7 True) = Inr True
   \<and> fst (reset_user_password 300 db_ada 7 ''hash-z'') = Inr True
   \<and> users (snd (update_user_profile db_ada 7 [(''school'', ''Hill'')])) = users db_ada
   \<and> users (snd (set_admin_status db_ada 7 True)) = users db_ada
   \<and> users (snd (reset_user_password 300 db_ada 7 ''hash-z'')) = users db_ada"
proof -
  have h1: "ready db_ada" by code_simp
  have h2: "sqlite_int 7" by (simp add: sqlite_int_def)
  have h3: "7 \<notin> set (map u_id (users db_ada))" by code_simp
  show ?thesis
    using h1 h2 h3
      id_keyed_updates_return_true[OF h1 h2, of "[(''school'', ''Hill'')]" True 300 "''hash-z''"]
    by simp
qed

text \<open>
  C10 as stated, for every user id, fails: the id \<open>2 ^ 63\<close> cannot be bound, the
  \<^verbatim>\<open>OverflowError\<close> is caught and each of the three methods returns \<^verbatim>\<open>False\<close>.
\<close>

theorem id_out_of_range_counterexample:
  "ready db_ada \<and> 2 ^ 63 \<notin> set (map u_id (users db_ada))
   \<and> fst (update_user_profile db_ada (2 ^ 63) [(''school'', ''Hill'')]) = Inr False
   \<and> fst (set_admin_status db_ada (2 ^ 63) True) = Inr False
   \<and> fst (reset_user_password 300 db_ada (2 ^ 63) ''hash-z'') = Inr False"
  by code_simp

end
